theory Spec2Isabelle
  imports Complex_Main
begin

section \<open>Beam search of \<open>model.py\<close>: data model\<close>

text \<open>
  The development embeds \<open>Model.beam_search\<close> and the inference part of
  \<open>Model.build_test_model\<close> of \<open>src/model.py\<close>.

  Conventions of the embedding.
  \<^item> A rank-1 tensor is a list; a rank-2 tensor is the list of its rows. The flattened
    hypothesis dimension \<open>batch_size * beam_size\<close> is batch-major, as in the source.
  \<^item> \<open>tf.float32\<close> values are modelled by \<open>real\<close>: rounding, infinities and NaN are not
    part of this model (the section on NaN propagation below uses a separate value type).
  \<^item> \<open>tf.int32\<close> values (tokens, the step counter) are modelled by \<open>int\<close>; the values
    stay far below the 32-bit range. List positions are \<open>nat\<close>.
  \<^item> The encoder, the two decoders, the projection \<open>test_output\<close> and the loss are the
    neural networks; they are parameters of the model, collected in the record
    \<open>networks\<close>, together with \<open>utils.shift_right\<close>, which is not part of \<open>src/\<close>.
  \<^item> The configured \<open>beam_size\<close> is a \<open>nat\<close>. The tensor shapes of the source are
    consistent for \<open>beam_size \<ge> 1\<close>; this is the range the theorems speak about.
\<close>

text \<open>\<open>self._config.test\<close>: the three settings \<open>beam_search\<close> reads.\<close>

record config =
  beam_size :: nat
  max_target_length :: int
  lp_alpha :: real

text \<open>
  The networks. \<open>'v\<close> is an encoder output vector, \<open>'h\<close> the decoder output tensor and
  \<open>'x\<close> one time slice of a hypothesis' cache (all blocks, all hidden units).

  \<open>test_output\<close> returns \<open>(_, next_preds, next_scores)\<close> in the source, both of shape
  \<open>[batch_size * beam_size, beam_size]\<close> because they come from
  \<open>tf.nn.top_k(z, k=beam_size)\<close>. The model keeps the two tensors as element functions
  (row, then candidate) and \<open>step\<close> materialises them with that shape.
\<close>

record ('v, 'h, 'x) networks =
  encoder :: "int list list \<Rightarrow> 'v list list"
  decoder :: "int list list \<Rightarrow> 'v list list \<Rightarrow> 'h"
  decoder_with_caching :: "int list list \<Rightarrow> 'x list list \<Rightarrow> 'v list list \<Rightarrow> 'h \<times> 'x list list"
  test_output :: "'h \<Rightarrow> (nat \<Rightarrow> nat \<Rightarrow> int) \<times> (nat \<Rightarrow> nat \<Rightarrow> real)"
  test_loss :: "'h \<Rightarrow> int list list \<Rightarrow> real"
  shift_right :: "int list list \<Rightarrow> int list list"

text \<open>The loop variables of \<open>tf.while_loop\<close> in \<open>beam_search\<close>.\<close>

record 'x loop_vars =
  lv_i :: int
  lv_bias :: "bool list"
  lv_preds :: "int list list"
  lv_scores :: "real list"
  lv_lengths :: "real list"
  lv_cache :: "'x list list"

section \<open>Tensor primitives\<close>

text \<open>\<open>inf = 1e10\<close>, the finite stand-in for infinity of \<open>beam_search\<close>.\<close>

definition inf_const :: real where
  "inf_const = 10000000000"

definition to_float :: "bool \<Rightarrow> real" where
  "to_float b = (if b then 1 else 0)"

definition to_int32 :: "bool \<Rightarrow> int" where
  "to_int32 b = (if b then 1 else 0)"

text \<open>A tensor of shape \<open>[n, m]\<close> from its element function.\<close>

definition tensor2 :: "nat \<Rightarrow> nat \<Rightarrow> (nat \<Rightarrow> nat \<Rightarrow> 'a) \<Rightarrow> 'a list list" where
  "tensor2 n m f = map (\<lambda>r. map (f r) [0..<m]) [0..<n]"

text \<open>\<open>tf.reshape(t, [n, m])\<close> of a flat tensor, and \<open>tf.reshape(t, [-1])\<close> of a rank-2 one.\<close>

definition reshape2 :: "nat \<Rightarrow> nat \<Rightarrow> 'a list \<Rightarrow> 'a list list" where
  "reshape2 n m xs = map (\<lambda>r. take m (drop (r * m) xs)) [0..<n]"

definition flatten :: "'a list list \<Rightarrow> 'a list" where
  "flatten t = concat t"

text \<open>
  \<open>tf.gather(params, indices)\<close> along axis 0. Every index the source gathers with is in
  range (lemma \<open>prune_bounds\<close> below), so the out-of-range behaviour of the kernel is
  never reached.
\<close>

definition gather :: "'a list \<Rightarrow> nat list \<Rightarrow> 'a list" where
  "gather params indices = map (\<lambda>j. params ! j) indices"

text \<open>
  \<open>tf.nn.top_k(row, k)\<close>, indices only: the positions of the \<open>k\<close> largest entries, in
  descending order of the entries, the lower index first among equal entries (the order
  TensorFlow documents). The sort is the stable insertion sort of the library.
\<close>

definition top_k :: "nat \<Rightarrow> real list \<Rightarrow> nat list" where
  "top_k k row = take k (sort_key (\<lambda>j. - (row ! j)) [0..<length row])"

text \<open>
  \<open>tf.argmax(row)\<close>: a left-to-right scan that keeps the first maximum. \<open>argmax_scan\<close>
  carries the best position and entry so far and the position of the next entry.
\<close>

fun argmax_scan :: "nat \<Rightarrow> real \<Rightarrow> nat \<Rightarrow> real list \<Rightarrow> nat" where
  "argmax_scan best bv j [] = best"
| "argmax_scan best bv j (x # xs) =
     (if bv < x then argmax_scan j x (Suc j) xs else argmax_scan best bv (Suc j) xs)"

definition argmax :: "real list \<Rightarrow> nat" where
  "argmax row = (case row of [] \<Rightarrow> 0 | x # xs \<Rightarrow> argmax_scan 0 x 1 xs)"

text \<open>\<open>tf.shape(t)[1]\<close> of a rank-2 (or higher) tensor with at least one row.\<close>

definition shape1 :: "'a list list \<Rightarrow> nat" where
  "shape1 t = (case t of [] \<Rightarrow> 0 | r # _ \<Rightarrow> length r)"

section \<open>The step function\<close>

text \<open>
  \<open>get_bias_scores\<close>: \<open>b\<close> is \<open>[0.0] + [-inf] * (beam_size - 1)\<close>, tiled over the rows;
  the result is \<open>scores * (1 - bias[:, None]) + b * bias[:, None]\<close>.
\<close>

definition get_bias_scores :: "nat \<Rightarrow> real list list \<Rightarrow> bool list \<Rightarrow> real list list" where
  "get_bias_scores k scores bias =
     (let b = 0 # replicate (k - 1) (- inf_const) in
      map2 (\<lambda>row bi. map2 (\<lambda>s bj. s * (1 - to_float bi) + bj * to_float bi) row b)
        scores bias)"

text \<open>\<open>get_bias_preds\<close>: \<open>preds * (1 - bias[:, None]) + bias[:, None] * 3\<close>.\<close>

definition get_bias_preds :: "int list list \<Rightarrow> bool list \<Rightarrow> int list list" where
  "get_bias_preds preds bias =
     map2 (\<lambda>row bi. map (\<lambda>p. p * (1 - to_int32 bi) + to_int32 bi * 3) row) preds bias"

text \<open>
  The decoder call of \<open>step\<close> followed by \<open>test_output\<close> and the two bias functions:
  the candidate tokens and candidate log-probabilities, shape
  \<open>[batch_size * beam_size, beam_size]\<close>, and the cache the decoder returns.
\<close>

definition call_decoder ::
  "('v, 'h, 'x) networks \<Rightarrow> bool \<Rightarrow> 'v list list \<Rightarrow> 'x loop_vars \<Rightarrow> 'h \<times> 'x list list" where
  "call_decoder M use_cache encoder_output st =
     (if use_cache then decoder_with_caching M (lv_preds st) (lv_cache st) encoder_output
      else (decoder M (lv_preds st) encoder_output, lv_cache st))"

definition next_preds_of ::
  "('v, 'h, 'x) networks \<Rightarrow> config \<Rightarrow> 'h \<Rightarrow> 'x loop_vars \<Rightarrow> int list list" where
  "next_preds_of M cfg decoder_output st =
     get_bias_preds
       (tensor2 (length (lv_preds st)) (beam_size cfg) (fst (test_output M decoder_output)))
       (lv_bias st)"

definition next_scores_of ::
  "('v, 'h, 'x) networks \<Rightarrow> config \<Rightarrow> 'h \<Rightarrow> 'x loop_vars \<Rightarrow> real list list" where
  "next_scores_of M cfg decoder_output st =
     get_bias_scores (beam_size cfg)
       (tensor2 (length (lv_preds st)) (beam_size cfg) (snd (test_output M decoder_output)))
       (lv_bias st)"

text \<open>
  ``Update scores'': \<open>scores[:, None] + next_scores\<close>, reshaped to
  \<open>[batch_size, beam_size ** 2]\<close>.
\<close>

definition cand_scores :: "nat \<Rightarrow> nat \<Rightarrow> real list \<Rightarrow> real list list \<Rightarrow> real list list" where
  "cand_scores batch_size k scores next_scores =
     reshape2 batch_size (k ^ 2)
       (flatten (map2 (\<lambda>s row. map (\<lambda>x. s + x) row) scores next_scores))"

text \<open>
  ``LP scores'': \<open>lengths[:, None] + tf.to_float(tf.not_equal(next_preds, 3))\<close>, reshaped
  likewise; \<open>lp = tf.pow((5 + lengths) / (5 + 1), lp_alpha)\<close>; \<open>lp_scores = scores / lp\<close>.
  \<open>tf.pow\<close> is the real power \<open>powr\<close>; its base is positive here, since lengths are
  never negative (lemma \<open>candidate_length_nonneg\<close>).
\<close>

definition cand_lengths :: "nat \<Rightarrow> nat \<Rightarrow> real list \<Rightarrow> int list list \<Rightarrow> real list list" where
  "cand_lengths batch_size k lengths next_preds =
     reshape2 batch_size (k ^ 2)
       (flatten (map2 (\<lambda>l row. map (\<lambda>p. l + to_float (p \<noteq> 3)) row) lengths next_preds))"

definition length_penalty :: "real \<Rightarrow> real \<Rightarrow> real" where
  "length_penalty alpha l = ((5 + l) / (5 + 1)) powr alpha"

definition lp_scores_of :: "real \<Rightarrow> real list list \<Rightarrow> real list list \<Rightarrow> real list list" where
  "lp_scores_of alpha scores lengths =
     map2 (\<lambda>srow lrow. map2 (\<lambda>s l. s / length_penalty alpha l) srow lrow) scores lengths"

text \<open>
  ``Pruning'': \<open>top_k\<close> per row of \<open>lp_scores\<close>, then the flattened candidate index
  \<open>base_indices + k_indices\<close> with
  \<open>base_indices = tile(range(batch_size)[:, None], [1, beam_size]) * beam_size ** 2\<close>.
\<close>

definition base_indices :: "nat \<Rightarrow> nat \<Rightarrow> nat list" where
  "base_indices batch_size k =
     map (\<lambda>b. b * k ^ 2) (flatten (map (replicate k) [0..<batch_size]))"

definition k_indices_of :: "nat \<Rightarrow> nat \<Rightarrow> real list list \<Rightarrow> nat list" where
  "k_indices_of batch_size k lp_scores =
     map2 (+) (base_indices batch_size k) (flatten (map (top_k k) lp_scores))"

text \<open>
  The body of the loop, in the three phases its comments name. \<open>expand\<close> is ``Call decoder
  and get predictions'', ``Update scores'' and the first two lines of ``LP scores'': it
  yields the biased candidate tokens \<open>[batch_size * beam_size, beam_size]\<close>, the candidate
  scores and candidate lengths \<open>[batch_size, beam_size ** 2]\<close> and the decoder's cache.
\<close>

record 'x expansion =
  ex_next_preds :: "int list list"
  ex_scores :: "real list list"
  ex_lengths :: "real list list"
  ex_cache :: "'x list list"

definition expand ::
  "('v, 'h, 'x) networks \<Rightarrow> config \<Rightarrow> bool \<Rightarrow> 'v list list \<Rightarrow> nat \<Rightarrow> 'x loop_vars \<Rightarrow> 'x expansion" where
  "expand M cfg use_cache encoder_output batch_size st =
     (let k = beam_size cfg;
          dc = call_decoder M use_cache encoder_output st;
          next_preds = next_preds_of M cfg (fst dc) st;
          next_scores = next_scores_of M cfg (fst dc) st
      in \<lparr>ex_next_preds = next_preds,
          ex_scores = cand_scores batch_size k (lv_scores st) next_scores,
          ex_lengths = cand_lengths batch_size k (lv_lengths st) next_preds,
          ex_cache = snd dc\<rparr>)"

text \<open>``Pruning'': the flattened indices of the survivors.\<close>

definition prune :: "config \<Rightarrow> nat \<Rightarrow> 'x expansion \<Rightarrow> nat list" where
  "prune cfg batch_size e =
     k_indices_of batch_size (beam_size cfg)
       (lp_scores_of (lp_alpha cfg) (ex_scores e) (ex_lengths e))"

text \<open>
  ``Update lengths'', ``Update scores'', ``Update predictions'' and ``Whether sequences
  finished'': the gathers with \<open>k_indices\<close> and \<open>k_indices / beam_size\<close>.
\<close>

definition reindex ::
  "config \<Rightarrow> bool \<Rightarrow> 'x loop_vars \<Rightarrow> 'x expansion \<Rightarrow> nat list \<Rightarrow> 'x loop_vars" where
  "reindex cfg use_cache st e k_indices =
     (let k = beam_size cfg;
          lengths = gather (flatten (ex_lengths e)) k_indices;
          scores = gather (flatten (ex_scores e)) k_indices;
          next_preds = gather (flatten (ex_next_preds e)) k_indices;
          parents = map (\<lambda>j. j div k) k_indices;
          preds = map2 (\<lambda>p t. p @ [t]) (gather (lv_preds st) parents) next_preds;
          cache = (if use_cache then gather (ex_cache e) parents else ex_cache e);
          bias = map (\<lambda>p. last p = 3) preds
      in \<lparr>lv_i = lv_i st + 1, lv_bias = bias, lv_preds = preds, lv_scores = scores,
          lv_lengths = lengths, lv_cache = cache\<rparr>)"

definition step ::
  "('v, 'h, 'x) networks \<Rightarrow> config \<Rightarrow> bool \<Rightarrow> 'v list list \<Rightarrow> nat \<Rightarrow> 'x loop_vars \<Rightarrow> 'x loop_vars" where
  "step M cfg use_cache encoder_output batch_size st =
     (let e = expand M cfg use_cache encoder_output batch_size st
      in reindex cfg use_cache st e (prune cfg batch_size e))"

section \<open>The controller\<close>

text \<open>
  The loop condition: \<open>tf.reduce_any(tf.logical_not(bias))\<close> and
  \<open>i <= tf.reduce_min([tf.shape(encoder_output)[1] + 50, max_target_length])\<close>.
\<close>

definition step_bound :: "config \<Rightarrow> 'v list list \<Rightarrow> int" where
  "step_bound cfg encoder_output =
     min (int (shape1 encoder_output) + 50) (max_target_length cfg)"

definition not_finished :: "config \<Rightarrow> 'v list list \<Rightarrow> 'x loop_vars \<Rightarrow> bool" where
  "not_finished cfg encoder_output st =
     (list_ex (\<lambda>b. \<not> b) (lv_bias st) \<and> lv_i st \<le> step_bound cfg encoder_output)"

text \<open>The loop variables before the first step.\<close>

definition init_vars :: "config \<Rightarrow> bool \<Rightarrow> nat \<Rightarrow> 'x loop_vars" where
  "init_vars cfg use_cache batch_size =
     (let k = beam_size cfg;
          preds = replicate (batch_size * k) [2];
          scores = flatten (replicate batch_size (0 # replicate (k - 1) (- inf_const)));
          lengths = replicate (batch_size * k) 0;
          bias = map (\<lambda>_. False) scores;
          cache = (if use_cache then replicate (batch_size * k) [] else [])
      in \<lparr>lv_i = 0, lv_bias = bias, lv_preds = preds, lv_scores = scores,
          lv_lengths = lengths, lv_cache = cache\<rparr>)"

text \<open>\<open>encoder_output\<close> repeated \<open>beam_size\<close> times per batch item.\<close>

definition tile_beams :: "nat \<Rightarrow> 'a list \<Rightarrow> 'a list" where
  "tile_beams k xs = flatten (map (replicate k) xs)"

text \<open>\<open>tf.while_loop(cond=not_finished, body=step, ...)\<close>.\<close>

function while_loop ::
  "('v, 'h, 'x) networks \<Rightarrow> config \<Rightarrow> bool \<Rightarrow> 'v list list \<Rightarrow> nat \<Rightarrow> 'x loop_vars \<Rightarrow> 'x loop_vars" where
  "while_loop M cfg use_cache encoder_output batch_size st =
     (if not_finished cfg encoder_output st
      then while_loop M cfg use_cache encoder_output batch_size
             (step M cfg use_cache encoder_output batch_size st)
      else st)"
  by pat_completeness auto
termination
  by (relation "measure (\<lambda>(M, cfg, uc, eo, bs, st). nat (step_bound cfg eo + 1 - lv_i st))")
     (auto simp: not_finished_def step_def reindex_def Let_def)

declare while_loop.simps [simp del]

text \<open>The loop of \<open>beam_search\<close> from the initial variables.\<close>

definition run_loop ::
  "('v, 'h, 'x) networks \<Rightarrow> config \<Rightarrow> bool \<Rightarrow> 'v list list \<Rightarrow> 'x loop_vars" where
  "run_loop M cfg use_cache encoder_output =
     (let batch_size = length encoder_output;
          tiled = tile_beams (beam_size cfg) encoder_output
      in while_loop M cfg use_cache tiled batch_size (init_vars cfg use_cache batch_size))"

text \<open>
  Finalisation: \<open>argmax\<close> of the cumulative scores per batch item, the gather of the
  winning rows and \<open>final_preds[:, 1:]\<close>.
\<close>

definition final_preds :: "config \<Rightarrow> nat \<Rightarrow> 'x loop_vars \<Rightarrow> int list list" where
  "final_preds cfg batch_size st =
     (let k = beam_size cfg;
          scores = reshape2 batch_size k (lv_scores st);
          max_indices = map2 (+) (map argmax scores) (map (\<lambda>b. b * k) [0..<batch_size])
      in map (drop 1) (gather (lv_preds st) max_indices))"

definition beam_search ::
  "('v, 'h, 'x) networks \<Rightarrow> config \<Rightarrow> bool \<Rightarrow> 'v list list \<Rightarrow> int list list" where
  "beam_search M cfg use_cache encoder_output =
     final_preds cfg (length encoder_output) (run_loop M cfg use_cache encoder_output)"

text \<open>The loop variables after \<open>n\<close> executions of the body, whatever the loop condition.\<close>

definition vars_after ::
  "('v, 'h, 'x) networks \<Rightarrow> config \<Rightarrow> bool \<Rightarrow> 'v list list \<Rightarrow> nat \<Rightarrow> 'x loop_vars" where
  "vars_after M cfg use_cache encoder_output n =
     ((step M cfg use_cache (tile_beams (beam_size cfg) encoder_output) (length encoder_output)) ^^ n)
       (init_vars cfg use_cache (length encoder_output))"

text \<open>
  The candidates and the survivors' indices that step \<open>n + 1\<close> computes from the loop
  variables after \<open>n\<close> steps, so that \<open>vars_after (n + 1)\<close> is \<open>reindex\<close> of the two.
\<close>

definition expansion_at ::
  "('v, 'h, 'x) networks \<Rightarrow> config \<Rightarrow> bool \<Rightarrow> 'v list list \<Rightarrow> nat \<Rightarrow> 'x expansion" where
  "expansion_at M cfg use_cache encoder_output n =
     expand M cfg use_cache (tile_beams (beam_size cfg) encoder_output) (length encoder_output)
       (vars_after M cfg use_cache encoder_output n)"

definition k_indices_at ::
  "('v, 'h, 'x) networks \<Rightarrow> config \<Rightarrow> bool \<Rightarrow> 'v list list \<Rightarrow> nat \<Rightarrow> nat list" where
  "k_indices_at M cfg use_cache encoder_output n =
     prune cfg (length encoder_output) (expansion_at M cfg use_cache encoder_output n)"

section \<open>The inference graph of \<open>build_test_model\<close>\<close>






section \<open>NaN in the score arithmetic\<close>

text \<open>
  To speak about NaN log-probabilities, the arithmetic of \<open>get_bias_scores\<close> and of
  ``Update scores'' (\<open>scores[:, None] + next_scores\<close>) is stated once more over a value
  type with a NaN: \<open>Fin x\<close> is the number \<open>x\<close>, and NaN is absorbing for \<open>+\<close>, \<open>-\<close> and
  \<open>*\<close>, also for \<open>NaN * 0\<close>, as in IEEE 754.
\<close>

datatype f32 = NaN | Fin real

fun f32_add :: "f32 \<Rightarrow> f32 \<Rightarrow> f32" where
  "f32_add (Fin x) (Fin y) = Fin (x + y)"
| "f32_add _ _ = NaN"


fun f32_mul :: "f32 \<Rightarrow> f32 \<Rightarrow> f32" where
  "f32_mul (Fin x) (Fin y) = Fin (x * y)"
| "f32_mul _ _ = NaN"



section \<open>Invariants and contracts used by the theorems\<close>

text \<open>The shapes of the loop variables for \<open>n\<close> flattened hypotheses.\<close>

definition shaped :: "nat \<Rightarrow> 'x loop_vars \<Rightarrow> bool" where
  "shaped n st \<longleftrightarrow>
     length (lv_preds st) = n \<and> length (lv_scores st) = n \<and>
     length (lv_lengths st) = n \<and> length (lv_bias st) = n"

text \<open>
  The contract of an incremental decoder whose candidates are a function of the token
  prefixes alone. \<open>valid preds cache\<close> says that \<open>cache\<close> is a cache the decoder may be
  given together with the prefixes \<open>preds\<close>. The contract: the empty cache is valid for
  the initial prefixes; given a valid cache, the incremental decoder yields the candidates
  of the full decoder on the same prefixes; and when prefixes and returned cache are
  gathered with the same indices and one token is appended to every gathered prefix, the
  result is valid again.
\<close>

definition cache_consistent ::
  "('v, 'h, 'x) networks \<Rightarrow> 'v list list \<Rightarrow> (int list list \<Rightarrow> 'x list list \<Rightarrow> bool) \<Rightarrow> bool" where
  "cache_consistent M encoder_output valid \<longleftrightarrow>
     (\<forall>n. valid (replicate n [2]) (replicate n [])) \<and>
     (\<forall>preds cache. valid preds cache \<and> [] \<notin> set preds \<longrightarrow>
        test_output M (fst (decoder_with_caching M preds cache encoder_output))
          = test_output M (decoder M preds encoder_output) \<and>
        (\<forall>parents tokens.
           length tokens = length parents \<and> (\<forall>j\<in>set parents. j < length preds) \<longrightarrow>
           valid (map2 (\<lambda>p t. p @ [t]) (gather preds parents) tokens)
             (gather (snd (decoder_with_caching M preds cache encoder_output)) parents)))"


section \<open>Concrete networks for the examples\<close>

text \<open>
  In all three networks the decoder output is the batch of prefixes itself, the
  incremental decoder rebuilds each prefix from its cache and the newest token, and the
  cache of a hypothesis is the list of tokens it has been decoded on.

  \<open>ex_net\<close> ranks token \<open>4\<close> first for two steps and token \<open>3\<close> afterwards; candidate
  \<open>c\<close> is the next token id and has log-probability \<open>- 1 - c\<close>.
\<close>

definition ex_decoder_with_caching ::
  "int list list \<Rightarrow> int list list \<Rightarrow> int list list \<Rightarrow> int list list \<times> int list list" where
  "ex_decoder_with_caching preds cache eo =
     (let c = map2 (\<lambda>c p. c @ [last p]) cache preds in (c, c))"

definition ex_shift_right :: "int list list \<Rightarrow> int list list" where
  "ex_shift_right Y = map (\<lambda>row. map (\<lambda>_. 2) (take 1 row) @ butlast row) Y"

definition ex_net :: "(int, int list list, int) networks" where
  "ex_net = \<lparr>encoder = (\<lambda>X. X),
     decoder = (\<lambda>preds eo. preds),
     decoder_with_caching = ex_decoder_with_caching,
     test_output = (\<lambda>h. (\<lambda>r c. if length (h ! r) \<le> 2 then 4 + int c else 3 + int c,
                         \<lambda>r c. - 1 - real c)),
     test_loss = (\<lambda>h Y. 1),
     shift_right = ex_shift_right\<rparr>"

definition ex_cfg :: config where
  "ex_cfg = \<lparr>beam_size = 2, max_target_length = 5, lp_alpha = 0\<rparr>"






section \<open>Lemmas on the tensor primitives\<close>

lemma length_tensor2 [simp]: "length (tensor2 n m f) = n"
  by (simp add: tensor2_def)

lemma tensor2_nth: "r < n \<Longrightarrow> tensor2 n m f ! r = map (f r) [0..<m]"
  by (simp add: tensor2_def)

lemma tensor2_row_length: "row \<in> set (tensor2 n m f) \<Longrightarrow> length row = m"
  by (auto simp: tensor2_def)

lemma length_flatten: "\<forall>row\<in>set t. length row = m \<Longrightarrow> length (flatten t) = length t * m"
  by (induction t) (simp_all add: flatten_def)

lemma flatten_nth:
  "\<forall>row\<in>set t. length row = m \<Longrightarrow> q < length t * m \<Longrightarrow>
     flatten t ! q = t ! (q div m) ! (q mod m)"
proof (induction t arbitrary: q)
  case Nil
  then show ?case by simp
next
  case (Cons x t)
  have lx: "length x = m" using Cons.prems(1) by simp
  have m0: "0 < m" using Cons.prems(2) by (cases m) auto
  show ?case
  proof (cases "q < m")
    case True
    then show ?thesis by (simp add: flatten_def nth_append lx)
  next
    case False
    then have qm: "m \<le> q" by simp
    have "q - m < length t * m" using Cons.prems(2) qm by simp
    then have ih: "flatten t ! (q - m) = t ! ((q - m) div m) ! ((q - m) mod m)"
      using Cons.IH Cons.prems(1) by simp
    have d: "q div m = Suc ((q - m) div m)"
      using qm m0 by (simp add: le_div_geq)
    have md: "q mod m = (q - m) mod m"
      using qm by (simp add: le_mod_geq)
    show ?thesis using False ih by (simp add: flatten_def nth_append lx d md)
  qed
qed

lemma flatten_nth_rc:
  assumes "\<forall>row\<in>set t. length row = m" "r < length t" "c < m"
  shows "flatten t ! (r * m + c) = t ! r ! c"
proof -
  have "r * m + c < length t * m"
  proof -
    have "r * m + c < r * m + m" using assms(3) by simp
    also have "\<dots> = Suc r * m" by simp
    also have "\<dots> \<le> length t * m" using assms(2) by (intro mult_le_mono1) simp
    finally show ?thesis .
  qed
  then show ?thesis using flatten_nth [OF assms(1)] assms(3) by simp
qed

lemma length_reshape2 [simp]: "length (reshape2 n m xs) = n"
  by (simp add: reshape2_def)

lemma reshape2_nth: "r < n \<Longrightarrow> reshape2 n m xs ! r = take m (drop (r * m) xs)"
  by (simp add: reshape2_def)

lemma reshape2_row_length:
  assumes "length xs = n * m" "row \<in> set (reshape2 n m xs)"
  shows "length row = m"
proof -
  obtain r where r: "r < n" "row = take m (drop (r * m) xs)"
    using assms(2) by (auto simp: reshape2_def)
  have "Suc r * m \<le> n * m" using r(1) by (intro mult_le_mono1) simp
  then show ?thesis using r(2) assms(1) by simp
qed

lemma reshape2_nth_nth:
  assumes "length xs = n * m" "r < n" "c < m"
  shows "reshape2 n m xs ! r ! c = xs ! (r * m + c)"
proof -
  have "Suc r * m \<le> n * m" using assms(2) by (intro mult_le_mono1) simp
  then show ?thesis using assms by (simp add: reshape2_nth)
qed

lemma flatten_reshape2:
  assumes "length xs = n * m"
  shows "flatten (reshape2 n m xs) = xs"
proof (rule nth_equalityI)
  have rows: "\<forall>row\<in>set (reshape2 n m xs). length row = m"
    using reshape2_row_length [OF assms] by blast
  show len: "length (flatten (reshape2 n m xs)) = length xs"
    using length_flatten [OF rows] assms by simp
  fix q assume "q < length (flatten (reshape2 n m xs))"
  then have q: "q < n * m" using len assms by simp
  then have m0: "0 < m" by (cases m) auto
  have r: "q div m < n" using q m0 by (simp add: less_mult_imp_div_less)
  have c: "q mod m < m" using m0 by simp
  have "flatten (reshape2 n m xs) ! q = reshape2 n m xs ! (q div m) ! (q mod m)"
    using flatten_nth [OF rows] q by simp
  also have "\<dots> = xs ! (q div m * m + q mod m)"
    using reshape2_nth_nth [OF assms r c] .
  finally show "flatten (reshape2 n m xs) ! q = xs ! q" by simp
qed

lemma length_top_k: "length (top_k k row) = min k (length row)"
  by (simp add: top_k_def)

lemma top_k_lt: "j \<in> set (top_k k row) \<Longrightarrow> j < length row"
  by (auto simp: top_k_def dest: in_set_takeD)

lemma distinct_top_k: "distinct (top_k k row)"
  by (simp add: top_k_def)

lemma length_base_indices: "length (base_indices bs k) = bs * k"
proof -
  have "\<forall>row\<in>set (map (replicate k) [0..<bs]). length row = k" by simp
  from length_flatten [OF this] show ?thesis by (simp add: base_indices_def)
qed

lemma base_indices_nth:
  assumes "j < bs * k"
  shows "base_indices bs k ! j = (j div k) * k ^ 2"
proof -
  have rows: "\<forall>row\<in>set (map (replicate k) [0..<bs]). length row = k" by simp
  have k0: "0 < k" using assms by (cases k) auto
  have r: "j div k < bs" using assms k0 by (simp add: less_mult_imp_div_less)
  have len: "length (flatten (map (replicate k) [0..<bs])) = bs * k"
    using length_flatten [OF rows] by simp
  have "flatten (map (replicate k) [0..<bs]) ! j = map (replicate k) [0..<bs] ! (j div k) ! (j mod k)"
    using flatten_nth [OF rows] assms by simp
  also have "\<dots> = j div k" using r k0 by simp
  finally show ?thesis using len assms by (simp add: base_indices_def)
qed


lemma le_power2_self: "(k::nat) \<le> k ^ 2"
  by (cases k) (simp_all add: power2_eq_square)

lemma div_lt_rows: "(j::nat) < bs * k \<Longrightarrow> j div k < bs"
  by (cases k) (simp_all add: less_mult_imp_div_less)

lemma mod_lt_cols: "(j::nat) < bs * k \<Longrightarrow> j mod k < k"
  by (cases k) simp_all

lemma length_k_indices_of:
  assumes "length lp = bs" "\<forall>row\<in>set lp. length row = k ^ 2"
  shows "length (k_indices_of bs k lp) = bs * k"
proof -
  have "\<forall>row\<in>set (map (top_k k) lp). length row = k"
    using assms(2) le_power2_self [of k] by (simp add: length_top_k)
  from length_flatten [OF this] show ?thesis
    using assms(1) by (simp add: k_indices_of_def length_base_indices)
qed

lemma k_indices_of_nth:
  assumes "length lp = bs" "\<forall>row\<in>set lp. length row = k ^ 2" "j < bs * k"
  shows "k_indices_of bs k lp ! j = (j div k) * k ^ 2 + top_k k (lp ! (j div k)) ! (j mod k)"
proof -
  have rows: "\<forall>row\<in>set (map (top_k k) lp). length row = k"
    using assms(2) le_power2_self [of k] by (simp add: length_top_k)
  have len: "length (flatten (map (top_k k) lp)) = bs * k"
    using length_flatten [OF rows] assms(1) by simp
  have r: "j div k < bs" using assms(3) by (rule div_lt_rows)
  have "flatten (map (top_k k) lp) ! j = map (top_k k) lp ! (j div k) ! (j mod k)"
    using flatten_nth [OF rows] assms(1,3) by simp
  also have "\<dots> = top_k k (lp ! (j div k)) ! (j mod k)"
    using r assms(1) by simp
  finally show ?thesis
    using len assms(3) by (simp add: k_indices_of_def length_base_indices base_indices_nth)
qed

lemma top_k_nth_lt:
  assumes "length row = k ^ 2" "c < k"
  shows "top_k k row ! c < k ^ 2"
proof -
  have "c < length (top_k k row)"
    using assms le_power2_self [of k] by (simp add: length_top_k)
  then have "top_k k row ! c \<in> set (top_k k row)" by simp
  then show ?thesis using top_k_lt assms(1) by fastforce
qed

lemma k_indices_of_bounds:
  assumes "length lp = bs" "\<forall>row\<in>set lp. length row = k ^ 2" "j < bs * k"
  shows "(j div k) * k ^ 2 \<le> k_indices_of bs k lp ! j"
    and "k_indices_of bs k lp ! j < (j div k + 1) * k ^ 2"
proof -
  have r: "j div k < bs" using assms(3) by (rule div_lt_rows)
  have c: "j mod k < k" using assms(3) by (rule mod_lt_cols)
  have row: "length (lp ! (j div k)) = k ^ 2" using assms(1,2) r by simp
  have t: "top_k k (lp ! (j div k)) ! (j mod k) < k ^ 2"
    using top_k_nth_lt [OF row c] .
  show "(j div k) * k ^ 2 \<le> k_indices_of bs k lp ! j"
    using k_indices_of_nth [OF assms] by simp
  show "k_indices_of bs k lp ! j < (j div k + 1) * k ^ 2"
    using k_indices_of_nth [OF assms] t by simp
qed

lemma k_indices_of_lt:
  assumes "length lp = bs" "\<forall>row\<in>set lp. length row = k ^ 2" "j < bs * k"
  shows "k_indices_of bs k lp ! j < bs * k ^ 2"
proof -
  have r: "j div k + 1 \<le> bs" using div_lt_rows [OF assms(3)] by simp
  have "k_indices_of bs k lp ! j < (j div k + 1) * k ^ 2"
    using k_indices_of_bounds(2) [OF assms] .
  also have "\<dots> \<le> bs * k ^ 2" using r by (rule mult_le_mono1)
  finally show ?thesis .
qed

lemma k_indices_of_parent:
  assumes "length lp = bs" "\<forall>row\<in>set lp. length row = k ^ 2" "j < bs * k"
  shows "k_indices_of bs k lp ! j div k
           = (j div k) * k + top_k k (lp ! (j div k)) ! (j mod k) div k"
    and "k_indices_of bs k lp ! j div k < bs * k"
proof -
  have k0: "0 < k" using assms(3) by (cases k) auto
  have "k_indices_of bs k lp ! j
          = top_k k (lp ! (j div k)) ! (j mod k) + ((j div k) * k) * k"
    using k_indices_of_nth [OF assms] by (simp add: power2_eq_square)
  then have "k_indices_of bs k lp ! j div k
          = (top_k k (lp ! (j div k)) ! (j mod k) + ((j div k) * k) * k) div k"
    by simp
  also have "\<dots> = top_k k (lp ! (j div k)) ! (j mod k) div k + (j div k) * k"
    using k0 by simp
  finally show "k_indices_of bs k lp ! j div k
           = (j div k) * k + top_k k (lp ! (j div k)) ! (j mod k) div k"
    by simp
  have "k_indices_of bs k lp ! j < (bs * k) * k"
    using k_indices_of_lt [OF assms] by (simp add: power2_eq_square)
  then show "k_indices_of bs k lp ! j div k < bs * k"
    using k0 by (simp add: less_mult_imp_div_less)
qed


lemma rows_lengthI:
  assumes "\<And>r. r < length t \<Longrightarrow> length (t ! r) = m"
  shows "\<forall>row\<in>set t. length row = m"
  using assms by (auto simp: in_set_conv_nth)

lemma bias_row_nth:
  "c < k \<Longrightarrow> (0 # replicate (k - 1) (- inf_const)) ! c = (if c = 0 then 0 else - inf_const)"
  by (cases c) simp_all

lemma length_next_preds_of:
  "shaped n st \<Longrightarrow> length (next_preds_of M cfg d st) = n"
  by (simp add: next_preds_of_def get_bias_preds_def shaped_def)

lemma next_preds_of_row:
  assumes "shaped n st" "r < n"
  shows "next_preds_of M cfg d st ! r
           = map (\<lambda>c. if lv_bias st ! r then 3 else fst (test_output M d) r c) [0..<beam_size cfg]"
  using assms
  by (simp add: next_preds_of_def get_bias_preds_def shaped_def tensor2_nth to_int32_def)

lemma next_preds_of_rows:
  assumes "shaped n st"
  shows "\<forall>row\<in>set (next_preds_of M cfg d st). length row = beam_size cfg"
proof (rule rows_lengthI)
  fix r assume "r < length (next_preds_of M cfg d st)"
  then have "r < n" using length_next_preds_of [OF assms, of M cfg d] by simp
  then show "length (next_preds_of M cfg d st ! r) = beam_size cfg"
    using next_preds_of_row [OF assms, of r M cfg d] by simp
qed

lemma next_preds_of_nth:
  assumes "shaped n st" "r < n" "c < beam_size cfg"
  shows "next_preds_of M cfg d st ! r ! c
           = (if lv_bias st ! r then 3 else fst (test_output M d) r c)"
  using next_preds_of_row [OF assms(1,2), of M cfg d] assms(3) by simp

lemma length_next_scores_of:
  "shaped n st \<Longrightarrow> length (next_scores_of M cfg d st) = n"
  by (simp add: next_scores_of_def get_bias_scores_def shaped_def)

lemma next_scores_of_row:
  assumes "shaped n st" "r < n"
  shows "next_scores_of M cfg d st ! r
           = map (\<lambda>c. if lv_bias st ! r then (if c = 0 then 0 else - inf_const)
                       else snd (test_output M d) r c) [0..<beam_size cfg]"
proof (rule nth_equalityI)
  have len: "length (next_scores_of M cfg d st ! r) = beam_size cfg"
    using assms
    by (cases "beam_size cfg")
       (simp_all add: next_scores_of_def get_bias_scores_def shaped_def tensor2_nth)
  then show "length (next_scores_of M cfg d st ! r)
      = length (map (\<lambda>c. if lv_bias st ! r then (if c = 0 then 0 else - inf_const)
                       else snd (test_output M d) r c) [0..<beam_size cfg])"
    by simp
  fix c assume "c < length (next_scores_of M cfg d st ! r)"
  then have c: "c < beam_size cfg" using len by simp
  then have c': "c < Suc (beam_size cfg - 1)" by simp
  show "next_scores_of M cfg d st ! r ! c
      = map (\<lambda>c. if lv_bias st ! r then (if c = 0 then 0 else - inf_const)
                       else snd (test_output M d) r c) [0..<beam_size cfg] ! c"
    using assms c c' bias_row_nth [OF c]
    by (simp add: next_scores_of_def get_bias_scores_def shaped_def tensor2_nth to_float_def
          del: nth_Cons_Suc nth_Cons')
qed

lemma next_scores_of_rows:
  assumes "shaped n st"
  shows "\<forall>row\<in>set (next_scores_of M cfg d st). length row = beam_size cfg"
proof (rule rows_lengthI)
  fix r assume "r < length (next_scores_of M cfg d st)"
  then have "r < n" using length_next_scores_of [OF assms, of M cfg d] by simp
  then show "length (next_scores_of M cfg d st ! r) = beam_size cfg"
    using next_scores_of_row [OF assms, of r M cfg d] by simp
qed

lemma next_scores_of_nth:
  assumes "shaped n st" "r < n" "c < beam_size cfg"
  shows "next_scores_of M cfg d st ! r ! c
           = (if lv_bias st ! r then (if c = 0 then 0 else - inf_const)
              else snd (test_output M d) r c)"
  using next_scores_of_row [OF assms(1,2), of M cfg d] assms(3) by simp


lemma broadcast_rows:
  assumes "length xs = n" "length t = n" "\<forall>row\<in>set t. length row = k"
  shows "length (map2 (\<lambda>x row. map (g x) row) xs t) = n"
    and "\<forall>row\<in>set (map2 (\<lambda>x row. map (g x) row) xs t). length row = k"
    and "length (flatten (map2 (\<lambda>x row. map (g x) row) xs t)) = n * k"
proof -
  show l: "length (map2 (\<lambda>x row. map (g x) row) xs t) = n" using assms by simp
  show r: "\<forall>row\<in>set (map2 (\<lambda>x row. map (g x) row) xs t). length row = k"
    using assms by (auto simp: in_set_zip)
  show "length (flatten (map2 (\<lambda>x row. map (g x) row) xs t)) = n * k"
    using length_flatten [OF r] l by simp
qed

lemma broadcast_flat_nth:
  assumes "length xs = n" "length t = n" "\<forall>row\<in>set t. length row = k" "r < n" "c < k"
  shows "flatten (map2 (\<lambda>x row. map (g x) row) xs t) ! (r * k + c) = g (xs ! r) (t ! r ! c)"
proof -
  have rl: "length (t ! r) = k" using assms(2,3,4) by simp
  have "flatten (map2 (\<lambda>x row. map (g x) row) xs t) ! (r * k + c)
          = map2 (\<lambda>x row. map (g x) row) xs t ! r ! c"
    using flatten_nth_rc [OF broadcast_rows(2) [OF assms(1,2,3)], where r = r and c = c and g1 = g]
      broadcast_rows(1) [OF assms(1,2,3), where g = g] assms(1,2,4,5) by simp
  also have "\<dots> = g (xs ! r) (t ! r ! c)"
    using assms(1,2,4,5) rl by simp
  finally show ?thesis .
qed

lemma sq_assoc: "(bs::nat) * k * k = bs * k ^ 2"
  by (simp add: power2_eq_square)

lemma cand_scores_shape:
  assumes "length scores = bs * k" "length ns = bs * k" "\<forall>row\<in>set ns. length row = k"
  shows "length (cand_scores bs k scores ns) = bs"
    and "\<forall>row\<in>set (cand_scores bs k scores ns). length row = k ^ 2"
    and "length (flatten (cand_scores bs k scores ns)) = bs * k ^ 2"
proof -
  have len: "length (flatten (map2 (\<lambda>s row. map (\<lambda>x. s + x) row) scores ns)) = bs * k ^ 2"
    using broadcast_rows(3) [OF assms, where g = "\<lambda>s x. s + x"] by (simp add: sq_assoc)
  show "length (cand_scores bs k scores ns) = bs" by (simp add: cand_scores_def)
  show "\<forall>row\<in>set (cand_scores bs k scores ns). length row = k ^ 2"
    unfolding cand_scores_def using reshape2_row_length [OF len] by blast
  show "length (flatten (cand_scores bs k scores ns)) = bs * k ^ 2"
    unfolding cand_scores_def using flatten_reshape2 [OF len] len by simp
qed

lemma cand_scores_flat_nth:
  assumes "length scores = bs * k" "length ns = bs * k" "\<forall>row\<in>set ns. length row = k"
    "r < bs * k" "c < k"
  shows "flatten (cand_scores bs k scores ns) ! (r * k + c) = scores ! r + ns ! r ! c"
proof -
  have len: "length (flatten (map2 (\<lambda>s row. map (\<lambda>x. s + x) row) scores ns)) = bs * k ^ 2"
    using broadcast_rows(3) [OF assms(1,2,3), where g = "\<lambda>s x. s + x"] by (simp add: sq_assoc)
  show ?thesis
    unfolding cand_scores_def flatten_reshape2 [OF len]
    using broadcast_flat_nth [OF assms, where g = "\<lambda>s x. s + x"] .
qed

lemma cand_lengths_shape:
  assumes "length lengths = bs * k" "length np = bs * k" "\<forall>row\<in>set np. length row = k"
  shows "length (cand_lengths bs k lengths np) = bs"
    and "\<forall>row\<in>set (cand_lengths bs k lengths np). length row = k ^ 2"
    and "length (flatten (cand_lengths bs k lengths np)) = bs * k ^ 2"
proof -
  have len: "length (flatten (map2 (\<lambda>l row. map (\<lambda>p. l + to_float (p \<noteq> 3)) row) lengths np))
      = bs * k ^ 2"
    using broadcast_rows(3) [OF assms, where g = "\<lambda>l p. l + to_float (p \<noteq> 3)"] by (simp add: sq_assoc)
  show "length (cand_lengths bs k lengths np) = bs" by (simp add: cand_lengths_def)
  show "\<forall>row\<in>set (cand_lengths bs k lengths np). length row = k ^ 2"
    unfolding cand_lengths_def using reshape2_row_length [OF len] by blast
  show "length (flatten (cand_lengths bs k lengths np)) = bs * k ^ 2"
    unfolding cand_lengths_def using flatten_reshape2 [OF len] len by simp
qed

lemma cand_lengths_flat_nth:
  assumes "length lengths = bs * k" "length np = bs * k" "\<forall>row\<in>set np. length row = k"
    "r < bs * k" "c < k"
  shows "flatten (cand_lengths bs k lengths np) ! (r * k + c)
           = lengths ! r + to_float (np ! r ! c \<noteq> 3)"
proof -
  have len: "length (flatten (map2 (\<lambda>l row. map (\<lambda>p. l + to_float (p \<noteq> 3)) row) lengths np))
      = bs * k ^ 2"
    using broadcast_rows(3) [OF assms(1,2,3), where g = "\<lambda>l p. l + to_float (p \<noteq> 3)"]
    by (simp add: sq_assoc)
  show ?thesis
    unfolding cand_lengths_def flatten_reshape2 [OF len]
    using broadcast_flat_nth [OF assms, where g = "\<lambda>l p. l + to_float (p \<noteq> 3)"] .
qed

section \<open>Lemmas on one step\<close>

lemma lp_scores_of_shape:
  assumes "length scores = bs" "length lengths = bs"
    "\<forall>row\<in>set scores. length row = m" "\<forall>row\<in>set lengths. length row = m"
  shows "length (lp_scores_of alpha scores lengths) = bs"
    and "\<forall>row\<in>set (lp_scores_of alpha scores lengths). length row = m"
  using assms by (auto simp: lp_scores_of_def in_set_zip)

lemma lp_scores_of_nth:
  assumes "length scores = bs" "length lengths = bs"
    "\<forall>row\<in>set scores. length row = m" "\<forall>row\<in>set lengths. length row = m"
    "b < bs" "q < m"
  shows "lp_scores_of alpha scores lengths ! b ! q
           = scores ! b ! q / length_penalty alpha (lengths ! b ! q)"
  using assms by (simp add: lp_scores_of_def)

lemma expand_fields:
  "ex_next_preds (expand M cfg uc eo bs st)
     = next_preds_of M cfg (fst (call_decoder M uc eo st)) st"
  "ex_scores (expand M cfg uc eo bs st)
     = cand_scores bs (beam_size cfg) (lv_scores st)
         (next_scores_of M cfg (fst (call_decoder M uc eo st)) st)"
  "ex_lengths (expand M cfg uc eo bs st)
     = cand_lengths bs (beam_size cfg) (lv_lengths st)
         (next_preds_of M cfg (fst (call_decoder M uc eo st)) st)"
  "ex_cache (expand M cfg uc eo bs st) = snd (call_decoder M uc eo st)"
  by (simp_all add: expand_def Let_def)

lemma expand_shape:
  assumes "shaped (bs * beam_size cfg) st"
  shows "length (ex_next_preds (expand M cfg uc eo bs st)) = bs * beam_size cfg"
    and "\<forall>row\<in>set (ex_next_preds (expand M cfg uc eo bs st)). length row = beam_size cfg"
    and "length (ex_scores (expand M cfg uc eo bs st)) = bs"
    and "\<forall>row\<in>set (ex_scores (expand M cfg uc eo bs st)). length row = (beam_size cfg) ^ 2"
    and "length (ex_lengths (expand M cfg uc eo bs st)) = bs"
    and "\<forall>row\<in>set (ex_lengths (expand M cfg uc eo bs st)). length row = (beam_size cfg) ^ 2"
    and "length (flatten (ex_scores (expand M cfg uc eo bs st))) = bs * (beam_size cfg) ^ 2"
    and "length (flatten (ex_lengths (expand M cfg uc eo bs st))) = bs * (beam_size cfg) ^ 2"
proof -
  let ?d = "fst (call_decoder M uc eo st)"
  have ls: "length (lv_scores st) = bs * beam_size cfg"
    and ll: "length (lv_lengths st) = bs * beam_size cfg"
    using assms by (simp_all add: shaped_def)
  note np = length_next_preds_of [OF assms, where M = M and cfg = cfg and d = ?d]
    next_preds_of_rows [OF assms, where M = M and cfg = cfg and d = ?d]
  note ns = length_next_scores_of [OF assms, where M = M and cfg = cfg and d = ?d]
    next_scores_of_rows [OF assms, where M = M and cfg = cfg and d = ?d]
  show "length (ex_next_preds (expand M cfg uc eo bs st)) = bs * beam_size cfg"
    using np(1) by (simp add: expand_fields)
  show "\<forall>row\<in>set (ex_next_preds (expand M cfg uc eo bs st)). length row = beam_size cfg"
    using np(2) by (simp add: expand_fields)
  show "length (ex_scores (expand M cfg uc eo bs st)) = bs"
    using cand_scores_shape(1) [OF ls ns] by (simp add: expand_fields)
  show "\<forall>row\<in>set (ex_scores (expand M cfg uc eo bs st)). length row = (beam_size cfg) ^ 2"
    using cand_scores_shape(2) [OF ls ns] by (simp add: expand_fields)
  show "length (ex_lengths (expand M cfg uc eo bs st)) = bs"
    using cand_lengths_shape(1) [OF ll np] by (simp add: expand_fields)
  show "\<forall>row\<in>set (ex_lengths (expand M cfg uc eo bs st)). length row = (beam_size cfg) ^ 2"
    using cand_lengths_shape(2) [OF ll np] by (simp add: expand_fields)
  show "length (flatten (ex_scores (expand M cfg uc eo bs st))) = bs * (beam_size cfg) ^ 2"
    using cand_scores_shape(3) [OF ls ns] by (simp add: expand_fields)
  show "length (flatten (ex_lengths (expand M cfg uc eo bs st))) = bs * (beam_size cfg) ^ 2"
    using cand_lengths_shape(3) [OF ll np] by (simp add: expand_fields)
qed

lemma expand_next_preds_nth:
  assumes "shaped (bs * beam_size cfg) st" "r < bs * beam_size cfg" "c < beam_size cfg"
  shows "ex_next_preds (expand M cfg uc eo bs st) ! r ! c
           = (if lv_bias st ! r then 3
              else fst (test_output M (fst (call_decoder M uc eo st))) r c)"
  using next_preds_of_nth [OF assms, where M = M and d = "fst (call_decoder M uc eo st)"]
  by (simp add: expand_fields)

lemma expand_scores_flat_nth:
  assumes "shaped (bs * beam_size cfg) st" "r < bs * beam_size cfg" "c < beam_size cfg"
  shows "flatten (ex_scores (expand M cfg uc eo bs st)) ! (r * beam_size cfg + c)
           = lv_scores st ! r
             + (if lv_bias st ! r then (if c = 0 then 0 else - inf_const)
                else snd (test_output M (fst (call_decoder M uc eo st))) r c)"
proof -
  let ?d = "fst (call_decoder M uc eo st)"
  have ls: "length (lv_scores st) = bs * beam_size cfg"
    using assms(1) by (simp add: shaped_def)
  note ns = length_next_scores_of [OF assms(1), where M = M and cfg = cfg and d = ?d]
    next_scores_of_rows [OF assms(1), where M = M and cfg = cfg and d = ?d]
  show ?thesis
    using cand_scores_flat_nth [OF ls ns assms(2,3)]
      next_scores_of_nth [OF assms, where M = M and d = ?d]
    by (simp add: expand_fields)
qed

lemma expand_lengths_flat_nth:
  assumes "shaped (bs * beam_size cfg) st" "r < bs * beam_size cfg" "c < beam_size cfg"
  shows "flatten (ex_lengths (expand M cfg uc eo bs st)) ! (r * beam_size cfg + c)
           = lv_lengths st ! r
             + to_float (ex_next_preds (expand M cfg uc eo bs st) ! r ! c \<noteq> 3)"
proof -
  let ?d = "fst (call_decoder M uc eo st)"
  have ll: "length (lv_lengths st) = bs * beam_size cfg"
    using assms(1) by (simp add: shaped_def)
  note np = length_next_preds_of [OF assms(1), where M = M and cfg = cfg and d = ?d]
    next_preds_of_rows [OF assms(1), where M = M and cfg = cfg and d = ?d]
  show ?thesis
    using cand_lengths_flat_nth [OF ll np assms(2,3)] by (simp add: expand_fields)
qed

lemma prune_shape:
  assumes "shaped (bs * beam_size cfg) st"
  shows "length (prune cfg bs (expand M cfg uc eo bs st)) = bs * beam_size cfg"
proof -
  note e = expand_shape [OF assms, where M = M and uc = uc and eo = eo]
  note lp = lp_scores_of_shape [OF e(3) e(5) e(4) e(6), where alpha = "lp_alpha cfg"]
  show ?thesis unfolding prune_def using length_k_indices_of [OF lp] .
qed

lemma prune_nth:
  assumes "shaped (bs * beam_size cfg) st" "j < bs * beam_size cfg"
  shows "prune cfg bs (expand M cfg uc eo bs st) ! j
           = (j div beam_size cfg) * (beam_size cfg) ^ 2
             + top_k (beam_size cfg)
                 (lp_scores_of (lp_alpha cfg) (ex_scores (expand M cfg uc eo bs st))
                    (ex_lengths (expand M cfg uc eo bs st)) ! (j div beam_size cfg))
               ! (j mod beam_size cfg)"
proof -
  note e = expand_shape [OF assms(1), where M = M and uc = uc and eo = eo]
  note lp = lp_scores_of_shape [OF e(3) e(5) e(4) e(6), where alpha = "lp_alpha cfg"]
  show ?thesis unfolding prune_def using k_indices_of_nth [OF lp assms(2)] .
qed

lemma prune_bounds:
  assumes "shaped (bs * beam_size cfg) st" "j < bs * beam_size cfg"
  shows "(j div beam_size cfg) * (beam_size cfg) ^ 2 \<le> prune cfg bs (expand M cfg uc eo bs st) ! j"
    and "prune cfg bs (expand M cfg uc eo bs st) ! j < (j div beam_size cfg + 1) * (beam_size cfg) ^ 2"
    and "prune cfg bs (expand M cfg uc eo bs st) ! j < bs * (beam_size cfg) ^ 2"
    and "prune cfg bs (expand M cfg uc eo bs st) ! j div beam_size cfg < bs * beam_size cfg"
proof -
  note e = expand_shape [OF assms(1), where M = M and uc = uc and eo = eo]
  note lp = lp_scores_of_shape [OF e(3) e(5) e(4) e(6), where alpha = "lp_alpha cfg"]
  show "(j div beam_size cfg) * (beam_size cfg) ^ 2 \<le> prune cfg bs (expand M cfg uc eo bs st) ! j"
    unfolding prune_def using k_indices_of_bounds(1) [OF lp assms(2)] .
  show "prune cfg bs (expand M cfg uc eo bs st) ! j < (j div beam_size cfg + 1) * (beam_size cfg) ^ 2"
    unfolding prune_def using k_indices_of_bounds(2) [OF lp assms(2)] .
  show "prune cfg bs (expand M cfg uc eo bs st) ! j < bs * (beam_size cfg) ^ 2"
    unfolding prune_def using k_indices_of_lt [OF lp assms(2)] .
  show "prune cfg bs (expand M cfg uc eo bs st) ! j div beam_size cfg < bs * beam_size cfg"
    unfolding prune_def using k_indices_of_parent(2) [OF lp assms(2)] .
qed


lemma step_fields:
  "lv_i (step M cfg uc eo bs st) = lv_i st + 1"
  "lv_preds (step M cfg uc eo bs st)
     = map2 (\<lambda>p t. p @ [t])
         (gather (lv_preds st)
            (map (\<lambda>j. j div beam_size cfg) (prune cfg bs (expand M cfg uc eo bs st))))
         (gather (flatten (ex_next_preds (expand M cfg uc eo bs st)))
            (prune cfg bs (expand M cfg uc eo bs st)))"
  "lv_scores (step M cfg uc eo bs st)
     = gather (flatten (ex_scores (expand M cfg uc eo bs st)))
         (prune cfg bs (expand M cfg uc eo bs st))"
  "lv_lengths (step M cfg uc eo bs st)
     = gather (flatten (ex_lengths (expand M cfg uc eo bs st)))
         (prune cfg bs (expand M cfg uc eo bs st))"
  "lv_bias (step M cfg uc eo bs st)
     = map (\<lambda>p. last p = 3) (lv_preds (step M cfg uc eo bs st))"
  "lv_cache (step M cfg uc eo bs st)
     = (if uc
        then gather (ex_cache (expand M cfg uc eo bs st))
               (map (\<lambda>j. j div beam_size cfg) (prune cfg bs (expand M cfg uc eo bs st)))
        else ex_cache (expand M cfg uc eo bs st))"
  by (simp_all add: step_def reindex_def Let_def)

lemma step_shaped:
  assumes "shaped (bs * beam_size cfg) st"
  shows "shaped (bs * beam_size cfg) (step M cfg uc eo bs st)"
  using prune_shape [OF assms, where M = M and uc = uc and eo = eo]
  by (simp add: shaped_def step_fields gather_def)

lemma split_index: "(q::nat) = (q div k) * k + q mod k"
  by simp

lemma step_nth:
  fixes M :: "('v, 'h, 'x) networks" and st :: "'x loop_vars"
    and cfg uc eo bs j
  assumes "shaped (bs * beam_size cfg) st" "j < bs * beam_size cfg"
  defines "q \<equiv> prune cfg bs (expand M cfg uc eo bs st) ! j"
  defines "r \<equiv> q div beam_size cfg" and "c \<equiv> q mod beam_size cfg"
  shows "r < bs * beam_size cfg" and "c < beam_size cfg"
    and "lv_preds (step M cfg uc eo bs st) ! j
           = lv_preds st ! r @ [ex_next_preds (expand M cfg uc eo bs st) ! r ! c]"
    and "lv_scores (step M cfg uc eo bs st) ! j
           = lv_scores st ! r
             + (if lv_bias st ! r then (if c = 0 then 0 else - inf_const)
                else snd (test_output M (fst (call_decoder M uc eo st))) r c)"
    and "lv_lengths (step M cfg uc eo bs st) ! j
           = lv_lengths st ! r
             + to_float (ex_next_preds (expand M cfg uc eo bs st) ! r ! c \<noteq> 3)"
    and "lv_bias (step M cfg uc eo bs st) ! j
           = (ex_next_preds (expand M cfg uc eo bs st) ! r ! c = 3)"
proof -
  let ?k = "beam_size cfg"
  let ?e = "expand M cfg uc eo bs st"
  have k0: "0 < ?k" using assms(2) by (cases ?k) auto
  note e = expand_shape [OF assms(1), where M = M and uc = uc and eo = eo]
  have lks: "length (prune cfg bs ?e) = bs * ?k"
    using prune_shape [OF assms(1), where M = M and uc = uc and eo = eo] .
  show r: "r < bs * ?k"
    unfolding r_def q_def
    using prune_bounds(4) [OF assms(1,2), where M = M and uc = uc and eo = eo] .
  show c: "c < ?k" unfolding c_def using k0 by simp
  have q: "q = r * ?k + c" unfolding r_def c_def by simp
  have qlt: "q < bs * ?k * ?k"
    using prune_bounds(3) [OF assms(1,2), where M = M and uc = uc and eo = eo]
    by (simp add: q_def sq_assoc)
  have np: "flatten (ex_next_preds ?e) ! q = ex_next_preds ?e ! r ! c"
    using flatten_nth [OF e(2)] e(1) qlt by (simp add: r_def c_def)
  show p: "lv_preds (step M cfg uc eo bs st) ! j = lv_preds st ! r @ [ex_next_preds ?e ! r ! c]"
    using assms(2) lks np by (simp add: step_fields gather_def q_def r_def)
  show "lv_scores (step M cfg uc eo bs st) ! j
           = lv_scores st ! r
             + (if lv_bias st ! r then (if c = 0 then 0 else - inf_const)
                else snd (test_output M (fst (call_decoder M uc eo st))) r c)"
    using assms(2) lks expand_scores_flat_nth [OF assms(1) r c, where M = M and uc = uc and eo = eo]
    by (simp add: step_fields gather_def q_def [symmetric] q)
  show "lv_lengths (step M cfg uc eo bs st) ! j
           = lv_lengths st ! r + to_float (ex_next_preds ?e ! r ! c \<noteq> 3)"
    using assms(2) lks expand_lengths_flat_nth [OF assms(1) r c, where M = M and uc = uc and eo = eo]
    by (simp add: step_fields gather_def q_def [symmetric] q)
  have "length (lv_preds (step M cfg uc eo bs st)) = bs * ?k"
    using step_shaped [OF assms(1), where M = M and uc = uc and eo = eo]
    by (simp add: shaped_def)
  then show "lv_bias (step M cfg uc eo bs st) ! j = (ex_next_preds ?e ! r ! c = 3)"
    using assms(2) p by (simp add: step_fields(5))
qed

section \<open>Invariants of the loop variables\<close>

lemma init_vars_fields:
  "lv_i (init_vars cfg uc bs) = 0"
  "lv_preds (init_vars cfg uc bs) = replicate (bs * beam_size cfg) [2]"
  "lv_scores (init_vars cfg uc bs)
     = flatten (replicate bs (0 # replicate (beam_size cfg - 1) (- inf_const)))"
  "lv_lengths (init_vars cfg uc bs) = replicate (bs * beam_size cfg) 0"
  "lv_bias (init_vars cfg uc bs)
     = map (\<lambda>_. False) (flatten (replicate bs (0 # replicate (beam_size cfg - 1) (- inf_const))))"
  "lv_cache (init_vars cfg uc bs) = (if uc then replicate (bs * beam_size cfg) [] else [])"
  by (simp_all add: init_vars_def Let_def)

lemma length_init_scores:
  assumes "1 \<le> beam_size cfg"
  shows "length (lv_scores (init_vars cfg uc bs)) = bs * beam_size cfg"
proof -
  have "\<forall>row\<in>set (replicate bs (0 # replicate (beam_size cfg - 1) (- inf_const))).
          length row = beam_size cfg"
    using assms by simp
  from length_flatten [OF this] show ?thesis by (simp add: init_vars_fields)
qed

lemma init_vars_shaped:
  assumes "1 \<le> beam_size cfg"
  shows "shaped (bs * beam_size cfg) (init_vars cfg uc bs)"
  using length_init_scores [OF assms] by (simp add: shaped_def init_vars_fields)

lemma vars_after_0: "vars_after M cfg uc eo 0 = init_vars cfg uc (length eo)"
  by (simp add: vars_after_def)

lemma vars_after_Suc:
  "vars_after M cfg uc eo (Suc n)
     = step M cfg uc (tile_beams (beam_size cfg) eo) (length eo) (vars_after M cfg uc eo n)"
  by (simp add: vars_after_def)

lemma vars_after_shaped:
  assumes "1 \<le> beam_size cfg"
  shows "shaped (length eo * beam_size cfg) (vars_after M cfg uc eo n)"
proof (induction n)
  case 0
  show ?case using init_vars_shaped [OF assms] by (simp add: vars_after_0)
next
  case (Suc n)
  show ?case using step_shaped [OF Suc.IH] by (simp add: vars_after_Suc)
qed

lemma vars_after_i: "lv_i (vars_after M cfg uc eo n) = int n"
  by (induction n) (simp_all add: vars_after_0 vars_after_Suc init_vars_fields step_fields)

lemma vars_after_bias:
  assumes "1 \<le> beam_size cfg"
  shows "lv_bias (vars_after M cfg uc eo n)
           = map (\<lambda>p. last p = 3) (lv_preds (vars_after M cfg uc eo n))"
proof (cases n)
  case 0
  have "length (flatten (replicate (length eo) (0 # replicate (beam_size cfg - 1) (- inf_const))))
          = length eo * beam_size cfg"
    using length_init_scores [OF assms, of uc "length eo"] by (simp add: init_vars_fields)
  then show ?thesis
    using 0 by (simp add: vars_after_0 init_vars_fields(2,5) map_replicate_const)
next
  case (Suc m)
  then show ?thesis by (simp add: vars_after_Suc step_fields(5))
qed

text \<open>Every row of the next predictions is a row of the current ones plus one token.\<close>

lemma step_row:
  assumes "shaped (bs * beam_size cfg) st" "p \<in> set (lv_preds (step M cfg uc eo bs st))"
  obtains r c where "r < bs * beam_size cfg" "c < beam_size cfg"
    "p = lv_preds st ! r @ [ex_next_preds (expand M cfg uc eo bs st) ! r ! c]"
proof -
  have "length (lv_preds (step M cfg uc eo bs st)) = bs * beam_size cfg"
    using step_shaped [OF assms(1), where M = M and uc = uc and eo = eo]
    by (simp add: shaped_def)
  then obtain j where j: "j < bs * beam_size cfg" "p = lv_preds (step M cfg uc eo bs st) ! j"
    using assms(2) by (auto simp: in_set_conv_nth)
  show thesis
    using that step_nth(1,2,3) [OF assms(1) j(1), where M = M and uc = uc and eo = eo] j(2)
    by blast
qed

lemma vars_after_rows:
  assumes "1 \<le> beam_size cfg" "p \<in> set (lv_preds (vars_after M cfg uc eo n))"
  shows "length p = Suc n \<and> hd p = 2"
  using assms(2)
proof (induction n arbitrary: p)
  case 0
  then show ?case by (simp add: vars_after_0 init_vars_fields)
next
  case (Suc n)
  let ?st = "vars_after M cfg uc eo n"
  have sh: "shaped (length eo * beam_size cfg) ?st" using vars_after_shaped [OF assms(1)] .
  have pl: "length (lv_preds ?st) = length eo * beam_size cfg"
    using sh by (simp add: shaped_def)
  from Suc.prems obtain r c where rc: "r < length eo * beam_size cfg"
    "p = lv_preds ?st ! r
           @ [ex_next_preds (expand M cfg uc (tile_beams (beam_size cfg) eo) (length eo) ?st) ! r ! c]"
    unfolding vars_after_Suc by (rule step_row [OF sh])
  have "lv_preds ?st ! r \<in> set (lv_preds ?st)" using rc(1) pl by simp
  from Suc.IH [OF this] show ?case using rc(2) by (cases "lv_preds ?st ! r") simp_all
qed


lemma vars_after_bias_nth:
  assumes "1 \<le> beam_size cfg" "r < length eo * beam_size cfg"
  shows "lv_bias (vars_after M cfg uc eo n) ! r
           = (last (lv_preds (vars_after M cfg uc eo n) ! r) = 3)"
proof -
  have "length (lv_preds (vars_after M cfg uc eo n)) = length eo * beam_size cfg"
    using vars_after_shaped [OF assms(1), where M = M and uc = uc and eo = eo and n = n]
    by (simp add: shaped_def)
  then show ?thesis using assms(2) by (simp add: vars_after_bias [OF assms(1)])
qed

lemma vars_after_eos_closed:
  assumes "1 \<le> beam_size cfg" "p \<in> set (lv_preds (vars_after M cfg uc eo n))"
    "a < b" "b < length p" "p ! a = 3"
  shows "p ! b = 3"
  using assms(2-)
proof (induction n arbitrary: p a b)
  case 0
  then show ?case by (simp add: vars_after_0 init_vars_fields)
next
  case (Suc n)
  let ?st = "vars_after M cfg uc eo n"
  let ?e = "expand M cfg uc (tile_beams (beam_size cfg) eo) (length eo) ?st"
  have sh: "shaped (length eo * beam_size cfg) ?st" using vars_after_shaped [OF assms(1)] .
  have pl: "length (lv_preds ?st) = length eo * beam_size cfg"
    using sh by (simp add: shaped_def)
  from Suc.prems(1) obtain r c where rc: "r < length eo * beam_size cfg" "c < beam_size cfg"
    "p = lv_preds ?st ! r @ [ex_next_preds ?e ! r ! c]"
    unfolding vars_after_Suc by (rule step_row [OF sh])
  let ?p0 = "lv_preds ?st ! r"
  have mem: "?p0 \<in> set (lv_preds ?st)" using rc(1) pl by simp
  have len0: "length ?p0 = Suc n" using vars_after_rows [OF assms(1) mem] by simp
  have a0: "a < length ?p0" using Suc.prems(2,3) rc(3) by simp
  have pa: "?p0 ! a = 3" using Suc.prems(4) a0 rc(3) by (simp add: nth_append)
  show ?case
  proof (cases "b < length ?p0")
    case True
    have "?p0 ! b = 3" using Suc.IH [OF mem Suc.prems(2) True pa] .
    then show ?thesis using True rc(3) by (simp add: nth_append)
  next
    case False
    then have b: "b = length ?p0" using Suc.prems(3) rc(3) by simp
    have "?p0 ! n = 3"
    proof (cases "a = n")
      case True
      then show ?thesis using pa by simp
    next
      case False
      then have "a < n" using a0 len0 by simp
      then show ?thesis using Suc.IH [OF mem _ _ pa, of n] len0 by simp
    qed
    moreover have "?p0 \<noteq> []" using len0 by auto
    then have "last ?p0 = ?p0 ! n" using len0 by (simp add: last_conv_nth)
    ultimately have "last ?p0 = 3" by simp
    then have "lv_bias ?st ! r" by (simp add: vars_after_bias_nth [OF assms(1) rc(1)])
    then have "ex_next_preds ?e ! r ! c = 3"
      by (simp add: expand_next_preds_nth [OF sh rc(1,2)])
    then show ?thesis using b rc(3) by simp
  qed
qed

lemma vars_after_lengths_nonneg:
  assumes "1 \<le> beam_size cfg" "j < length eo * beam_size cfg"
  shows "0 \<le> lv_lengths (vars_after M cfg uc eo n) ! j"
  using assms(2)
proof (induction n arbitrary: j)
  case 0
  then show ?case by (simp add: vars_after_0 init_vars_fields)
next
  case (Suc n)
  let ?st = "vars_after M cfg uc eo n"
  have sh: "shaped (length eo * beam_size cfg) ?st" using vars_after_shaped [OF assms(1)] .
  note s = step_nth(1,5) [OF sh Suc.prems, where M = M and uc = uc
      and eo = "tile_beams (beam_size cfg) eo"]
  show ?case
    unfolding vars_after_Suc s(2) using Suc.IH [OF s(1)] by (simp add: to_float_def)
qed

section \<open>The loop as an iteration of the body\<close>

lemma while_loop_funpow:
  "\<exists>n. while_loop M cfg uc eo bs st = ((step M cfg uc eo bs) ^^ n) st
        \<and> \<not> not_finished cfg eo (((step M cfg uc eo bs) ^^ n) st)
        \<and> (\<forall>m<n. not_finished cfg eo (((step M cfg uc eo bs) ^^ m) st))"
proof (induction M cfg uc eo bs st rule: while_loop.induct)
  case (1 M cfg uc eo bs st)
  show ?case
  proof (cases "not_finished cfg eo st")
    case False
    then have "while_loop M cfg uc eo bs st = ((step M cfg uc eo bs) ^^ 0) st
        \<and> \<not> not_finished cfg eo (((step M cfg uc eo bs) ^^ 0) st)
        \<and> (\<forall>m<0. not_finished cfg eo (((step M cfg uc eo bs) ^^ m) st))"
      by (subst while_loop.simps) simp
    then show ?thesis by blast
  next
    case True
    from 1 [OF True] obtain n where n:
      "while_loop M cfg uc eo bs (step M cfg uc eo bs st)
         = ((step M cfg uc eo bs) ^^ n) (step M cfg uc eo bs st)"
      "\<not> not_finished cfg eo (((step M cfg uc eo bs) ^^ n) (step M cfg uc eo bs st))"
      "\<forall>m<n. not_finished cfg eo (((step M cfg uc eo bs) ^^ m) (step M cfg uc eo bs st))"
      by blast
    have sw: "\<And>m. ((step M cfg uc eo bs) ^^ m) (step M cfg uc eo bs st)
                 = ((step M cfg uc eo bs) ^^ Suc m) st"
      by (simp add: funpow_swap1)
    have "while_loop M cfg uc eo bs st = ((step M cfg uc eo bs) ^^ Suc n) st"
      using True n(1) sw by (subst while_loop.simps) simp
    moreover have "\<not> not_finished cfg eo (((step M cfg uc eo bs) ^^ Suc n) st)"
      using n(2) sw by simp
    moreover have "\<forall>m<Suc n. not_finished cfg eo (((step M cfg uc eo bs) ^^ m) st)"
    proof (intro allI impI)
      fix m assume m: "m < Suc n"
      show "not_finished cfg eo (((step M cfg uc eo bs) ^^ m) st)"
      proof (cases m)
        case 0
        then show ?thesis using True by simp
      next
        case (Suc m')
        then have "m' < n" using m by simp
        then show ?thesis using n(3) sw Suc by simp
      qed
    qed
    ultimately show ?thesis by blast
  qed
qed

lemma run_loop_vars_after:
  "\<exists>n. run_loop M cfg uc eo = vars_after M cfg uc eo n
        \<and> \<not> not_finished cfg (tile_beams (beam_size cfg) eo) (vars_after M cfg uc eo n)
        \<and> (\<forall>m<n. not_finished cfg (tile_beams (beam_size cfg) eo) (vars_after M cfg uc eo m))"
  using while_loop_funpow [of M cfg uc "tile_beams (beam_size cfg) eo" "length eo"
      "init_vars cfg uc (length eo)"]
  by (simp add: run_loop_def vars_after_def Let_def)

section \<open>Pruning\<close>

lemma k_indices_of_segment:
  assumes "length lp = bs" "\<forall>row\<in>set lp. length row = k ^ 2" "b < bs"
  shows "take k (drop (b * k) (k_indices_of bs k lp))
           = map (\<lambda>x. b * k ^ 2 + x) (top_k k (lp ! b))"
proof (rule nth_equalityI)
  have len: "length (k_indices_of bs k lp) = bs * k"
    using length_k_indices_of [OF assms(1,2)] .
  have "Suc b * k \<le> bs * k" using assms(3) by (intro mult_le_mono1) simp
  then have bk: "b * k + k \<le> bs * k" by simp
  have row: "length (lp ! b) = k ^ 2" using assms by simp
  have ltk: "length (top_k k (lp ! b)) = k"
    using row le_power2_self [of k] by (simp add: length_top_k)
  show l: "length (take k (drop (b * k) (k_indices_of bs k lp)))
      = length (map (\<lambda>x. b * k ^ 2 + x) (top_k k (lp ! b)))"
    using len bk ltk by simp
  fix c assume "c < length (take k (drop (b * k) (k_indices_of bs k lp)))"
  then have c: "c < k" using l ltk by simp
  then have j: "b * k + c < bs * k" using bk by simp
  have d: "(b * k + c) div k = b" and m: "(b * k + c) mod k = c" using c by simp_all
  have "b * k \<le> length (k_indices_of bs k lp)" using len assms(3) by simp
  then have "take k (drop (b * k) (k_indices_of bs k lp)) ! c = k_indices_of bs k lp ! (b * k + c)"
    using c by (simp add: nth_drop)
  also have "\<dots> = b * k ^ 2 + top_k k (lp ! b) ! c"
    unfolding k_indices_of_nth [OF assms(1,2) j] d m ..
  finally show "take k (drop (b * k) (k_indices_of bs k lp)) ! c
      = map (\<lambda>x. b * k ^ 2 + x) (top_k k (lp ! b)) ! c"
    using c ltk by simp
qed

lemma expansion_at_shape:
  assumes "1 \<le> beam_size cfg"
  shows "length (lp_scores_of (lp_alpha cfg) (ex_scores (expansion_at M cfg uc eo n))
            (ex_lengths (expansion_at M cfg uc eo n))) = length eo"
    and "\<forall>row\<in>set (lp_scores_of (lp_alpha cfg) (ex_scores (expansion_at M cfg uc eo n))
            (ex_lengths (expansion_at M cfg uc eo n))). length row = (beam_size cfg) ^ 2"
proof -
  have sh: "shaped (length eo * beam_size cfg) (vars_after M cfg uc eo n)"
    using vars_after_shaped [OF assms] .
  note e = expand_shape [OF sh, where M = M and uc = uc and eo = "tile_beams (beam_size cfg) eo"]
  note lp = lp_scores_of_shape [OF e(3) e(5) e(4) e(6), where alpha = "lp_alpha cfg"]
  show "length (lp_scores_of (lp_alpha cfg) (ex_scores (expansion_at M cfg uc eo n))
            (ex_lengths (expansion_at M cfg uc eo n))) = length eo"
    using lp(1) by (simp add: expansion_at_def)
  show "\<forall>row\<in>set (lp_scores_of (lp_alpha cfg) (ex_scores (expansion_at M cfg uc eo n))
            (ex_lengths (expansion_at M cfg uc eo n))). length row = (beam_size cfg) ^ 2"
    using lp(2) by (simp add: expansion_at_def)
qed

text \<open>
  Claim C3. At every step the survivors are chosen per batch item: there are
  \<open>beam_size\<close> survivors for each item, the survivors of item \<open>b\<close> are pairwise different
  candidates, namely \<open>top_k\<close> of the item's own \<open>beam_size ** 2\<close> ranking scores, and every
  flattened candidate index gathered at position \<open>j\<close> lies in the index range of the item
  \<open>j div beam_size\<close> that position \<open>j\<close> belongs to, as does the parent hypothesis.
\<close>

theorem pruning_per_batch_item:
  assumes "1 \<le> beam_size cfg"
  shows "length (k_indices_at M cfg uc eo n) = length eo * beam_size cfg
    \<and> (\<forall>j<length eo * beam_size cfg.
         (j div beam_size cfg) * (beam_size cfg) ^ 2 \<le> k_indices_at M cfg uc eo n ! j
         \<and> k_indices_at M cfg uc eo n ! j < (j div beam_size cfg + 1) * (beam_size cfg) ^ 2
         \<and> (k_indices_at M cfg uc eo n ! j div beam_size cfg) div beam_size cfg
             = j div beam_size cfg)
    \<and> (\<forall>b<length eo.
         take (beam_size cfg) (drop (b * beam_size cfg) (k_indices_at M cfg uc eo n))
           = map (\<lambda>x. b * (beam_size cfg) ^ 2 + x)
               (top_k (beam_size cfg)
                  (lp_scores_of (lp_alpha cfg) (ex_scores (expansion_at M cfg uc eo n))
                     (ex_lengths (expansion_at M cfg uc eo n)) ! b))
         \<and> length (take (beam_size cfg) (drop (b * beam_size cfg) (k_indices_at M cfg uc eo n)))
             = beam_size cfg
         \<and> distinct (take (beam_size cfg) (drop (b * beam_size cfg) (k_indices_at M cfg uc eo n))))"
proof (intro conjI allI impI)
  let ?k = "beam_size cfg"
  let ?lp = "lp_scores_of (lp_alpha cfg) (ex_scores (expansion_at M cfg uc eo n))
                     (ex_lengths (expansion_at M cfg uc eo n))"
  note lp = expansion_at_shape [OF assms, where M = M and uc = uc and eo = eo and n = n]
  have k0: "0 < ?k" using assms by simp
  show len: "length (k_indices_at M cfg uc eo n) = length eo * ?k"
    unfolding k_indices_at_def prune_def using length_k_indices_of [OF lp] .
  {
    fix j assume j: "j < length eo * ?k"
    show lo: "(j div ?k) * ?k ^ 2 \<le> k_indices_at M cfg uc eo n ! j"
      unfolding k_indices_at_def prune_def using k_indices_of_bounds(1) [OF lp j] .
    show hi: "k_indices_at M cfg uc eo n ! j < (j div ?k + 1) * ?k ^ 2"
      unfolding k_indices_at_def prune_def using k_indices_of_bounds(2) [OF lp j] .
    have "(j div ?k) * ?k \<le> k_indices_at M cfg uc eo n ! j div ?k"
    proof -
      have "(j div ?k) * ?k = ((j div ?k) * ?k ^ 2) div ?k"
        using k0 by (simp add: power2_eq_square)
      also have "\<dots> \<le> k_indices_at M cfg uc eo n ! j div ?k"
        using lo by (rule div_le_mono)
      finally show ?thesis .
    qed
    moreover have "k_indices_at M cfg uc eo n ! j div ?k < (j div ?k + 1) * ?k"
    proof -
      have "k_indices_at M cfg uc eo n ! j < ((j div ?k + 1) * ?k) * ?k"
        using hi by (simp add: power2_eq_square algebra_simps)
      then show ?thesis using k0 by (simp add: less_mult_imp_div_less)
    qed
    ultimately show "(k_indices_at M cfg uc eo n ! j div ?k) div ?k = j div ?k"
      using k0 by (metis Suc_eq_plus1 div_nat_eqI mult.commute)
  }
  {
    fix b assume b: "b < length eo"
    show seg: "take ?k (drop (b * ?k) (k_indices_at M cfg uc eo n))
           = map (\<lambda>x. b * ?k ^ 2 + x) (top_k ?k (?lp ! b))"
      unfolding k_indices_at_def prune_def using k_indices_of_segment [OF lp b] .
    have row: "length (?lp ! b) = ?k ^ 2" using lp b by simp
    show "length (take ?k (drop (b * ?k) (k_indices_at M cfg uc eo n))) = ?k"
      unfolding seg using row le_power2_self [of ?k] by (simp add: length_top_k)
    show "distinct (take ?k (drop (b * ?k) (k_indices_at M cfg uc eo n)))"
      unfolding seg by (simp add: distinct_map distinct_top_k inj_on_def)
  }
qed

theorem pruning_per_batch_item_witness:
  "1 \<le> beam_size ex_cfg
   \<and> k_indices_at ex_net ex_cfg True [[7, 8], [9, 9]] 1 = [0, 1, 4, 5]
   \<and> length (k_indices_at ex_net ex_cfg True [[7, 8], [9, 9]] 1) = 4
   \<and> 4 \<le> k_indices_at ex_net ex_cfg True [[7, 8], [9, 9]] 1 ! 3
   \<and> k_indices_at ex_net ex_cfg True [[7, 8], [9, 9]] 1 ! 3 < 8
   \<and> distinct (take 2 (drop 2 (k_indices_at ex_net ex_cfg True [[7, 8], [9, 9]] 1)))"
proof -
  have h: "1 \<le> beam_size ex_cfg" by (simp add: ex_cfg_def)
  note t = pruning_per_batch_item [OF h, of ex_net True "[[7, 8], [9, 9]]" 1]
  have v: "k_indices_at ex_net ex_cfg True [[7, 8], [9, 9]] 1 = [0, 1, 4, 5]"
    by code_simp
  have k: "beam_size ex_cfg = 2" by (simp add: ex_cfg_def)
  from t have "length (k_indices_at ex_net ex_cfg True [[7, 8], [9, 9]] 1)
      = length [[7, 8], [9, 9 :: int]] * beam_size ex_cfg"
    by (rule conjunct1)
  then have a: "length (k_indices_at ex_net ex_cfg True [[7, 8], [9, 9]] 1) = 4"
    by (simp add: k)
  from t have "\<forall>j<length [[7, 8], [9, 9 :: int]] * beam_size ex_cfg.
         (j div beam_size ex_cfg) * (beam_size ex_cfg) ^ 2
            \<le> k_indices_at ex_net ex_cfg True [[7, 8], [9, 9]] 1 ! j
         \<and> k_indices_at ex_net ex_cfg True [[7, 8], [9, 9]] 1 ! j
             < (j div beam_size ex_cfg + 1) * (beam_size ex_cfg) ^ 2
         \<and> (k_indices_at ex_net ex_cfg True [[7, 8], [9, 9]] 1 ! j div beam_size ex_cfg)
              div beam_size ex_cfg = j div beam_size ex_cfg"
    by (rule conjunct1 [OF conjunct2])
  then have "3 < length [[7, 8], [9, 9 :: int]] * beam_size ex_cfg \<longrightarrow>
         (3 div beam_size ex_cfg) * (beam_size ex_cfg) ^ 2
            \<le> k_indices_at ex_net ex_cfg True [[7, 8], [9, 9]] 1 ! 3
         \<and> k_indices_at ex_net ex_cfg True [[7, 8], [9, 9]] 1 ! 3
             < (3 div beam_size ex_cfg + 1) * (beam_size ex_cfg) ^ 2
         \<and> (k_indices_at ex_net ex_cfg True [[7, 8], [9, 9]] 1 ! 3 div beam_size ex_cfg)
              div beam_size ex_cfg = 3 div beam_size ex_cfg"
    by (rule spec)
  then have b: "4 \<le> k_indices_at ex_net ex_cfg True [[7, 8], [9, 9]] 1 ! 3
      \<and> k_indices_at ex_net ex_cfg True [[7, 8], [9, 9]] 1 ! 3 < 8"
    unfolding k by simp
  from t have "\<forall>b<length [[7, 8], [9, 9 :: int]].
         take (beam_size ex_cfg) (drop (b * beam_size ex_cfg) (k_indices_at ex_net ex_cfg True [[7, 8], [9, 9]] 1))
           = map (\<lambda>x. b * (beam_size ex_cfg) ^ 2 + x)
               (top_k (beam_size ex_cfg)
                  (lp_scores_of (lp_alpha ex_cfg) (ex_scores (expansion_at ex_net ex_cfg True [[7, 8], [9, 9]] 1))
                     (ex_lengths (expansion_at ex_net ex_cfg True [[7, 8], [9, 9]] 1)) ! b))
         \<and> length (take (beam_size ex_cfg) (drop (b * beam_size ex_cfg) (k_indices_at ex_net ex_cfg True [[7, 8], [9, 9]] 1)))
             = beam_size ex_cfg
         \<and> distinct (take (beam_size ex_cfg) (drop (b * beam_size ex_cfg) (k_indices_at ex_net ex_cfg True [[7, 8], [9, 9]] 1)))"
    by (rule conjunct2 [OF conjunct2])
  then have "1 < length [[7, 8], [9, 9 :: int]] \<longrightarrow>
       distinct (take (beam_size ex_cfg) (drop (1 * beam_size ex_cfg) (k_indices_at ex_net ex_cfg True [[7, 8], [9, 9]] 1)))"
    by blast
  then have c: "distinct (take 2 (drop 2 (k_indices_at ex_net ex_cfg True [[7, 8], [9, 9]] 1)))"
    unfolding k by simp
  show ?thesis using h v a b c by blast
qed

section \<open>Candidate lengths and ranking scores\<close>

lemma item_index:
  assumes "b < bs" "h < k" "c < (k::nat)"
  shows "b * k + h < bs * k" and "h * k + c < k ^ 2"
    and "b * k ^ 2 + (h * k + c) = (b * k + h) * k + c"
proof -
  have "b * k + h < b * k + k" using assms(2) by simp
  also have "\<dots> = Suc b * k" by simp
  also have "\<dots> \<le> bs * k" using assms(1) by (intro mult_le_mono1) simp
  finally show "b * k + h < bs * k" .
  have "h * k + c < h * k + k" using assms(3) by simp
  also have "\<dots> = Suc h * k" by simp
  also have "\<dots> \<le> k * k" using assms(2) by (intro mult_le_mono1) simp
  finally show "h * k + c < k ^ 2" by (simp add: power2_eq_square)
  show "b * k ^ 2 + (h * k + c) = (b * k + h) * k + c"
    by (simp add: power2_eq_square algebra_simps)
qed

lemma expansion_at_lengths_nth:
  assumes "1 \<le> beam_size cfg" "b < length eo" "h < beam_size cfg" "c < beam_size cfg"
  shows "ex_lengths (expansion_at M cfg uc eo n) ! b ! (h * beam_size cfg + c)
           = lv_lengths (vars_after M cfg uc eo n) ! (b * beam_size cfg + h)
             + to_float (ex_next_preds (expansion_at M cfg uc eo n) ! (b * beam_size cfg + h) ! c \<noteq> 3)"
proof -
  let ?k = "beam_size cfg"
  let ?E = "expansion_at M cfg uc eo n"
  have sh: "shaped (length eo * ?k) (vars_after M cfg uc eo n)"
    using vars_after_shaped [OF assms(1)] .
  note e = expand_shape [OF sh, where M = M and uc = uc and eo = "tile_beams ?k eo"]
  note ix = item_index [OF assms(2,3,4)]
  have rows: "\<forall>row\<in>set (ex_lengths ?E). length row = ?k ^ 2"
    and len: "length (ex_lengths ?E) = length eo"
    using e(5,6) by (simp_all add: expansion_at_def)
  have "ex_lengths ?E ! b ! (h * ?k + c) = flatten (ex_lengths ?E) ! (b * ?k ^ 2 + (h * ?k + c))"
    using flatten_nth_rc [OF rows, of b "h * ?k + c"] len assms(2) ix(2) by simp
  also have "\<dots> = flatten (ex_lengths ?E) ! ((b * ?k + h) * ?k + c)"
    by (simp only: ix(3))
  also have "\<dots> = lv_lengths (vars_after M cfg uc eo n) ! (b * ?k + h)
             + to_float (ex_next_preds ?E ! (b * ?k + h) ! c \<noteq> 3)"
    unfolding expansion_at_def by (rule expand_lengths_flat_nth [OF sh ix(1) assms(4)])
  finally show ?thesis .
qed

lemma expansion_at_scores_nth:
  assumes "1 \<le> beam_size cfg" "b < length eo" "h < beam_size cfg" "c < beam_size cfg"
  shows "ex_scores (expansion_at M cfg uc eo n) ! b ! (h * beam_size cfg + c)
           = lv_scores (vars_after M cfg uc eo n) ! (b * beam_size cfg + h)
             + (if lv_bias (vars_after M cfg uc eo n) ! (b * beam_size cfg + h)
                then (if c = 0 then 0 else - inf_const)
                else snd (test_output M (fst (call_decoder M uc (tile_beams (beam_size cfg) eo)
                       (vars_after M cfg uc eo n)))) (b * beam_size cfg + h) c)"
proof -
  let ?k = "beam_size cfg"
  let ?E = "expansion_at M cfg uc eo n"
  have sh: "shaped (length eo * ?k) (vars_after M cfg uc eo n)"
    using vars_after_shaped [OF assms(1)] .
  note e = expand_shape [OF sh, where M = M and uc = uc and eo = "tile_beams ?k eo"]
  note ix = item_index [OF assms(2,3,4)]
  have rows: "\<forall>row\<in>set (ex_scores ?E). length row = ?k ^ 2"
    and len: "length (ex_scores ?E) = length eo"
    using e(3,4) by (simp_all add: expansion_at_def)
  have "ex_scores ?E ! b ! (h * ?k + c) = flatten (ex_scores ?E) ! (b * ?k ^ 2 + (h * ?k + c))"
    using flatten_nth_rc [OF rows, of b "h * ?k + c"] len assms(2) ix(2) by simp
  also have "\<dots> = flatten (ex_scores ?E) ! ((b * ?k + h) * ?k + c)"
    by (simp only: ix(3))
  finally show ?thesis
    unfolding expansion_at_def expand_scores_flat_nth [OF sh ix(1) assms(4)] .
qed

lemma expansion_at_lp_nth:
  assumes "1 \<le> beam_size cfg" "b < length eo" "q < (beam_size cfg) ^ 2"
  shows "lp_scores_of (lp_alpha cfg) (ex_scores (expansion_at M cfg uc eo n))
             (ex_lengths (expansion_at M cfg uc eo n)) ! b ! q
           = ex_scores (expansion_at M cfg uc eo n) ! b ! q
             / length_penalty (lp_alpha cfg) (ex_lengths (expansion_at M cfg uc eo n) ! b ! q)"
proof -
  have sh: "shaped (length eo * beam_size cfg) (vars_after M cfg uc eo n)"
    using vars_after_shaped [OF assms(1)] .
  note e = expand_shape [OF sh, where M = M and uc = uc
      and eo = "tile_beams (beam_size cfg) eo"]
  show ?thesis
    unfolding expansion_at_def
    by (rule lp_scores_of_nth [OF e(3) e(5) e(4) e(6) assms(2,3)])
qed

text \<open>
  Claim C5. At every step, for the candidate \<open>c\<close> of hypothesis \<open>h\<close> of batch item \<open>b\<close>:
  its tracked length is the parent's length plus 1 when its token is not \<open>3\<close> and the
  parent's length when it is; its cumulative score is the parent's score plus the
  (biased) candidate log-probability; the ranking score is the cumulative score divided
  by \<open>((5 + length) / (5 + 1))\<close> to the power \<open>lp_alpha\<close>, and it is the cumulative score
  itself when \<open>lp_alpha = 0\<close>. These ranking scores are what the pruning ranks.
\<close>

theorem candidate_length_and_ranking:
  assumes "1 \<le> beam_size cfg" "b < length eo" "h < beam_size cfg" "c < beam_size cfg"
  shows "ex_lengths (expansion_at M cfg uc eo n) ! b ! (h * beam_size cfg + c)
           = lv_lengths (vars_after M cfg uc eo n) ! (b * beam_size cfg + h)
             + (if ex_next_preds (expansion_at M cfg uc eo n) ! (b * beam_size cfg + h) ! c \<noteq> 3
                then 1 else 0)
    \<and> ex_scores (expansion_at M cfg uc eo n) ! b ! (h * beam_size cfg + c)
           = lv_scores (vars_after M cfg uc eo n) ! (b * beam_size cfg + h)
             + (if lv_bias (vars_after M cfg uc eo n) ! (b * beam_size cfg + h)
                then (if c = 0 then 0 else - inf_const)
                else snd (test_output M (fst (call_decoder M uc (tile_beams (beam_size cfg) eo)
                       (vars_after M cfg uc eo n)))) (b * beam_size cfg + h) c)
    \<and> lp_scores_of (lp_alpha cfg) (ex_scores (expansion_at M cfg uc eo n))
             (ex_lengths (expansion_at M cfg uc eo n)) ! b ! (h * beam_size cfg + c)
           = ex_scores (expansion_at M cfg uc eo n) ! b ! (h * beam_size cfg + c)
             / ((5 + ex_lengths (expansion_at M cfg uc eo n) ! b ! (h * beam_size cfg + c))
                  / (5 + 1)) powr lp_alpha cfg
    \<and> (lp_alpha cfg = 0 \<longrightarrow>
         lp_scores_of (lp_alpha cfg) (ex_scores (expansion_at M cfg uc eo n))
             (ex_lengths (expansion_at M cfg uc eo n)) ! b ! (h * beam_size cfg + c)
           = ex_scores (expansion_at M cfg uc eo n) ! b ! (h * beam_size cfg + c))
    \<and> k_indices_at M cfg uc eo n
           = k_indices_of (length eo) (beam_size cfg)
               (lp_scores_of (lp_alpha cfg) (ex_scores (expansion_at M cfg uc eo n))
                  (ex_lengths (expansion_at M cfg uc eo n)))"
proof -
  let ?k = "beam_size cfg"
  let ?E = "expansion_at M cfg uc eo n"
  let ?st = "vars_after M cfg uc eo n"
  note ix = item_index [OF assms(2,3,4)]
  have len: "ex_lengths ?E ! b ! (h * ?k + c)
      = lv_lengths ?st ! (b * ?k + h)
        + (if ex_next_preds ?E ! (b * ?k + h) ! c \<noteq> 3 then 1 else 0)"
    unfolding expansion_at_lengths_nth [OF assms] by (simp add: to_float_def)
  have nonneg: "0 \<le> lv_lengths ?st ! (b * ?k + h)"
    using vars_after_lengths_nonneg [OF assms(1) ix(1)] .
  have lp: "lp_scores_of (lp_alpha cfg) (ex_scores ?E) (ex_lengths ?E) ! b ! (h * ?k + c)
      = ex_scores ?E ! b ! (h * ?k + c)
        / ((5 + ex_lengths ?E ! b ! (h * ?k + c)) / (5 + 1)) powr lp_alpha cfg"
    unfolding expansion_at_lp_nth [OF assms(1,2) ix(2)] length_penalty_def ..
  have pos: "0 < (5 + ex_lengths ?E ! b ! (h * ?k + c)) / (5 + 1)"
    unfolding len using nonneg by simp
  have zero: "lp_alpha cfg = 0 \<longrightarrow>
      lp_scores_of (lp_alpha cfg) (ex_scores ?E) (ex_lengths ?E) ! b ! (h * ?k + c)
        = ex_scores ?E ! b ! (h * ?k + c)"
  proof
    assume a: "lp_alpha cfg = 0"
    show "lp_scores_of (lp_alpha cfg) (ex_scores ?E) (ex_lengths ?E) ! b ! (h * ?k + c)
        = ex_scores ?E ! b ! (h * ?k + c)"
      using lp pos by (simp add: a)
  qed
  have pr: "k_indices_at M cfg uc eo n
      = k_indices_of (length eo) ?k (lp_scores_of (lp_alpha cfg) (ex_scores ?E) (ex_lengths ?E))"
    by (simp add: k_indices_at_def prune_def)
  show ?thesis
    using len expansion_at_scores_nth [OF assms, where M = M and uc = uc and n = n] lp zero pr
    by blast
qed

section \<open>The run of \<open>ex_net\<close> on one source sentence\<close>

lemma ex_vars_1:
  "vars_after ex_net ex_cfg True [[7, 8]] 1
     = \<lparr>lv_i = 1, lv_bias = [False, False], lv_preds = [[2, 4], [2, 5]],
        lv_scores = [- 1, - 2], lv_lengths = [1, 1], lv_cache = [[2], [2]]\<rparr>"
  by code_simp

lemma ex_vars_2:
  "vars_after ex_net ex_cfg True [[7, 8]] 2
     = \<lparr>lv_i = 2, lv_bias = [False, False], lv_preds = [[2, 4, 4], [2, 4, 5]],
        lv_scores = [- 2, - 3], lv_lengths = [2, 2], lv_cache = [[2, 4], [2, 4]]\<rparr>"
proof -
  have "vars_after ex_net ex_cfg True [[7, 8]] 2
      = step ex_net ex_cfg True (tile_beams (beam_size ex_cfg) [[7, 8]]) (length [[7, 8 :: int]])
          (vars_after ex_net ex_cfg True [[7, 8]] 1)"
    using vars_after_Suc [of ex_net ex_cfg True "[[7, 8]]" 1] by (simp add: numeral_2_eq_2)
  also have "\<dots> = \<lparr>lv_i = 2, lv_bias = [False, False], lv_preds = [[2, 4, 4], [2, 4, 5]],
        lv_scores = [- 2, - 3], lv_lengths = [2, 2], lv_cache = [[2, 4], [2, 4]]\<rparr>"
    unfolding ex_vars_1 by code_simp
  finally show ?thesis .
qed

lemma ex_vars_3:
  "vars_after ex_net ex_cfg True [[7, 8]] 3
     = \<lparr>lv_i = 3, lv_bias = [True, False], lv_preds = [[2, 4, 4, 3], [2, 4, 4, 4]],
        lv_scores = [- 3, - 4], lv_lengths = [2, 3], lv_cache = [[2, 4, 4], [2, 4, 4]]\<rparr>"
proof -
  have "vars_after ex_net ex_cfg True [[7, 8]] 3
      = step ex_net ex_cfg True (tile_beams (beam_size ex_cfg) [[7, 8]]) (length [[7, 8 :: int]])
          (vars_after ex_net ex_cfg True [[7, 8]] 2)"
    using vars_after_Suc [of ex_net ex_cfg True "[[7, 8]]" 2]
    by (simp add: numeral_3_eq_3 numeral_2_eq_2)
  also have "\<dots> = \<lparr>lv_i = 3, lv_bias = [True, False], lv_preds = [[2, 4, 4, 3], [2, 4, 4, 4]],
        lv_scores = [- 3, - 4], lv_lengths = [2, 3], lv_cache = [[2, 4, 4], [2, 4, 4]]\<rparr>"
    unfolding ex_vars_2 by code_simp
  finally show ?thesis .
qed

lemma ex_expansion_3:
  "expansion_at ex_net ex_cfg True [[7, 8]] 3
     = \<lparr>ex_next_preds = [[3, 3], [3, 4]],
        ex_scores = [[- 3, - 10000000003, - 5, - 6]],
        ex_lengths = [[2, 2, 3, 4]],
        ex_cache = [[2, 4, 4, 3], [2, 4, 4, 4]]\<rparr>"
  unfolding expansion_at_def ex_vars_3 by code_simp


lemma ex_vars_4:
  "vars_after ex_net ex_cfg True [[7, 8]] 4
     = \<lparr>lv_i = 4, lv_bias = [True, True], lv_preds = [[2, 4, 4, 3, 3], [2, 4, 4, 4, 3]],
        lv_scores = [- 3, - 5], lv_lengths = [2, 3],
        lv_cache = [[2, 4, 4, 3], [2, 4, 4, 4]]\<rparr>"
proof -
  have "vars_after ex_net ex_cfg True [[7, 8]] 4
      = step ex_net ex_cfg True (tile_beams (beam_size ex_cfg) [[7, 8]]) (length [[7, 8 :: int]])
          (vars_after ex_net ex_cfg True [[7, 8]] 3)"
    using vars_after_Suc [of ex_net ex_cfg True "[[7, 8]]" 3]
    by (simp add: eval_nat_numeral)
  also have "\<dots> = \<lparr>lv_i = 4, lv_bias = [True, True],
        lv_preds = [[2, 4, 4, 3, 3], [2, 4, 4, 4, 3]],
        lv_scores = [- 3, - 5], lv_lengths = [2, 3],
        lv_cache = [[2, 4, 4, 3], [2, 4, 4, 4]]\<rparr>"
    unfolding ex_vars_3 by code_simp
  finally show ?thesis .
qed

lemma ex_cfg_fields: "beam_size ex_cfg = 2" "max_target_length ex_cfg = 5" "lp_alpha ex_cfg = 0"
  by (simp_all add: ex_cfg_def)

theorem candidate_length_and_ranking_witness:
  "1 \<le> beam_size ex_cfg \<and> (0::nat) < length [[7, 8 :: int]] \<and> 1 < beam_size ex_cfg
   \<and> lv_lengths (vars_after ex_net ex_cfg True [[7, 8]] 3) ! 1 = 3
   \<and> ex_next_preds (expansion_at ex_net ex_cfg True [[7, 8]] 3) ! 1 ! 1 = 4
   \<and> ex_lengths (expansion_at ex_net ex_cfg True [[7, 8]] 3) ! 0 ! 3 = 4
   \<and> lp_alpha ex_cfg = 0
   \<and> lp_scores_of (lp_alpha ex_cfg) (ex_scores (expansion_at ex_net ex_cfg True [[7, 8]] 3))
        (ex_lengths (expansion_at ex_net ex_cfg True [[7, 8]] 3)) ! 0 ! 3 = - 6"
proof -
  have h1: "1 \<le> beam_size ex_cfg" and h2: "(0::nat) < length [[7, 8 :: int]]"
    and h3: "1 < beam_size ex_cfg"
    by (simp_all add: ex_cfg_fields)
  note t = candidate_length_and_ranking [OF h1 h2 h3 h3, of ex_net True 3]
  have a: "lv_lengths (vars_after ex_net ex_cfg True [[7, 8]] 3) ! 1 = 3"
    unfolding ex_vars_3 by simp
  have b: "ex_next_preds (expansion_at ex_net ex_cfg True [[7, 8]] 3) ! 1 ! 1 = 4"
    unfolding ex_expansion_3 by simp
  from t have "ex_lengths (expansion_at ex_net ex_cfg True [[7, 8]] 3) ! 0 ! (1 * beam_size ex_cfg + 1)
      = lv_lengths (vars_after ex_net ex_cfg True [[7, 8]] 3) ! (0 * beam_size ex_cfg + 1)
        + (if ex_next_preds (expansion_at ex_net ex_cfg True [[7, 8]] 3) ! (0 * beam_size ex_cfg + 1) ! 1 \<noteq> 3
           then 1 else 0)"
    by (rule conjunct1)
  then have c: "ex_lengths (expansion_at ex_net ex_cfg True [[7, 8]] 3) ! 0 ! 3 = 4"
    using a b by (simp add: ex_cfg_fields)
  from t have "lp_alpha ex_cfg = 0 \<longrightarrow>
      lp_scores_of (lp_alpha ex_cfg) (ex_scores (expansion_at ex_net ex_cfg True [[7, 8]] 3))
          (ex_lengths (expansion_at ex_net ex_cfg True [[7, 8]] 3)) ! 0 ! (1 * beam_size ex_cfg + 1)
        = ex_scores (expansion_at ex_net ex_cfg True [[7, 8]] 3) ! 0 ! (1 * beam_size ex_cfg + 1)"
    by blast
  then have "lp_scores_of (lp_alpha ex_cfg) (ex_scores (expansion_at ex_net ex_cfg True [[7, 8]] 3))
          (ex_lengths (expansion_at ex_net ex_cfg True [[7, 8]] 3)) ! 0 ! 3
        = ex_scores (expansion_at ex_net ex_cfg True [[7, 8]] 3) ! 0 ! 3"
    by (simp add: ex_cfg_fields)
  also have "\<dots> = - 6" unfolding ex_expansion_3 by simp
  finally have d: "lp_scores_of (lp_alpha ex_cfg) (ex_scores (expansion_at ex_net ex_cfg True [[7, 8]] 3))
          (ex_lengths (expansion_at ex_net ex_cfg True [[7, 8]] 3)) ! 0 ! 3 = - 6" .
  show ?thesis using h1 h2 h3 a b c d ex_cfg_fields(3) by blast
qed

section \<open>Finalisation\<close>

lemma argmax_scan_props:
  assumes "best < length pre" "bv = pre ! best" "\<forall>h<length pre. pre ! h \<le> bv"
    "\<forall>h<best. pre ! h < bv" "j = length pre"
  shows "argmax_scan best bv j xs < length (pre @ xs)
    \<and> (\<forall>h<length (pre @ xs). (pre @ xs) ! h \<le> (pre @ xs) ! argmax_scan best bv j xs)
    \<and> (\<forall>h<argmax_scan best bv j xs. (pre @ xs) ! h < (pre @ xs) ! argmax_scan best bv j xs)"
  using assms
proof (induction xs arbitrary: pre best bv j)
  case Nil
  then show ?case by simp
next
  case (Cons x xs)
  show ?case
  proof (cases "bv < x")
    case True
    have "argmax_scan j x (Suc j) xs < length ((pre @ [x]) @ xs)
      \<and> (\<forall>h<length ((pre @ [x]) @ xs).
            ((pre @ [x]) @ xs) ! h \<le> ((pre @ [x]) @ xs) ! argmax_scan j x (Suc j) xs)
      \<and> (\<forall>h<argmax_scan j x (Suc j) xs.
            ((pre @ [x]) @ xs) ! h < ((pre @ [x]) @ xs) ! argmax_scan j x (Suc j) xs)"
    proof (rule Cons.IH)
      show "j < length (pre @ [x])" using Cons.prems(5) by simp
      show "x = (pre @ [x]) ! j" using Cons.prems(5) by simp
      show "\<forall>h<length (pre @ [x]). (pre @ [x]) ! h \<le> x"
        using Cons.prems(3) True by (auto simp: nth_append less_Suc_eq)
      show "\<forall>h<j. (pre @ [x]) ! h < x"
        using Cons.prems(3,5) True by (auto simp: nth_append)
      show "Suc j = length (pre @ [x])" using Cons.prems(5) by simp
    qed
    then show ?thesis using True by simp
  next
    case False
    have "argmax_scan best bv (Suc j) xs < length ((pre @ [x]) @ xs)
      \<and> (\<forall>h<length ((pre @ [x]) @ xs).
            ((pre @ [x]) @ xs) ! h \<le> ((pre @ [x]) @ xs) ! argmax_scan best bv (Suc j) xs)
      \<and> (\<forall>h<argmax_scan best bv (Suc j) xs.
            ((pre @ [x]) @ xs) ! h < ((pre @ [x]) @ xs) ! argmax_scan best bv (Suc j) xs)"
    proof (rule Cons.IH)
      show "best < length (pre @ [x])" using Cons.prems(1) by simp
      show "bv = (pre @ [x]) ! best" using Cons.prems(1,2) by (simp add: nth_append)
      show "\<forall>h<length (pre @ [x]). (pre @ [x]) ! h \<le> bv"
        using Cons.prems(3) False by (auto simp: nth_append less_Suc_eq)
      show "\<forall>h<best. (pre @ [x]) ! h < bv"
        using Cons.prems(1,4) by (auto simp: nth_append)
      show "Suc j = length (pre @ [x])" using Cons.prems(5) by simp
    qed
    then show ?thesis using False by simp
  qed
qed

lemma argmax_props:
  assumes "row \<noteq> []"
  shows "argmax row < length row"
    and "\<forall>h<length row. row ! h \<le> row ! argmax row"
    and "\<forall>h<argmax row. row ! h < row ! argmax row"
proof -
  obtain x xs where row: "row = x # xs" using assms by (cases row) auto
  have "argmax_scan 0 x (length [x]) xs < length ([x] @ xs)
    \<and> (\<forall>h<length ([x] @ xs). ([x] @ xs) ! h \<le> ([x] @ xs) ! argmax_scan 0 x (length [x]) xs)
    \<and> (\<forall>h<argmax_scan 0 x (length [x]) xs.
          ([x] @ xs) ! h < ([x] @ xs) ! argmax_scan 0 x (length [x]) xs)"
    by (rule argmax_scan_props) simp_all
  then have p: "argmax row < length row \<and> (\<forall>h<length row. row ! h \<le> row ! argmax row)
    \<and> (\<forall>h<argmax row. row ! h < row ! argmax row)"
    by (simp add: row argmax_def)
  show "argmax row < length row" using p by blast
  show "\<forall>h<length row. row ! h \<le> row ! argmax row" using p by blast
  show "\<forall>h<argmax row. row ! h < row ! argmax row" using p by blast
qed

lemma length_final_preds: "length (final_preds cfg bs st) = bs"
  by (simp add: final_preds_def Let_def gather_def)

lemma final_preds_nth:
  assumes "b < bs"
  shows "final_preds cfg bs st ! b
           = drop 1 (lv_preds st
               ! (argmax (take (beam_size cfg) (drop (b * beam_size cfg) (lv_scores st)))
                  + b * beam_size cfg))"
  using assms by (simp add: final_preds_def Let_def gather_def reshape2_nth)

text \<open>The winner of batch item \<open>b\<close>: the first maximum among the item's scores.\<close>

lemma final_preds_winner:
  assumes "1 \<le> beam_size cfg" "shaped (bs * beam_size cfg) st" "b < bs"
  obtains m where "m < beam_size cfg"
    "final_preds cfg bs st ! b = drop 1 (lv_preds st ! (b * beam_size cfg + m))"
    "\<forall>h<beam_size cfg. lv_scores st ! (b * beam_size cfg + h) \<le> lv_scores st ! (b * beam_size cfg + m)"
    "\<forall>h<m. lv_scores st ! (b * beam_size cfg + h) < lv_scores st ! (b * beam_size cfg + m)"
proof -
  let ?k = "beam_size cfg"
  let ?row = "take ?k (drop (b * ?k) (lv_scores st))"
  have ls: "length (lv_scores st) = bs * ?k" using assms(2) by (simp add: shaped_def)
  have "Suc b * ?k \<le> bs * ?k" using assms(3) by (intro mult_le_mono1) simp
  then have bk: "b * ?k + ?k \<le> bs * ?k" by simp
  have lr: "length ?row = ?k" using ls bk by simp
  then have ne: "?row \<noteq> []" using assms(1) by auto
  have "b * ?k \<le> length (lv_scores st)" using ls assms(3) by simp
  then have nth: "\<And>h. h < ?k \<Longrightarrow> ?row ! h = lv_scores st ! (b * ?k + h)"
    by (simp add: nth_drop)
  note a = argmax_props [OF ne]
  have m: "argmax ?row < ?k" using a(1) lr by simp
  show thesis
  proof (rule that [of "argmax ?row"])
    show "argmax ?row < ?k" by (rule m)
    show "final_preds cfg bs st ! b = drop 1 (lv_preds st ! (b * ?k + argmax ?row))"
      using final_preds_nth [OF assms(3)] by (simp add: add.commute)
    show "\<forall>h<?k. lv_scores st ! (b * ?k + h) \<le> lv_scores st ! (b * ?k + argmax ?row)"
    proof (intro allI impI)
      fix h assume h: "h < ?k"
      have "?row ! h \<le> ?row ! argmax ?row" using a(2) h lr by simp
      then show "lv_scores st ! (b * ?k + h) \<le> lv_scores st ! (b * ?k + argmax ?row)"
        by (simp only: nth [OF h] nth [OF m])
    qed
    show "\<forall>h<argmax ?row. lv_scores st ! (b * ?k + h) < lv_scores st ! (b * ?k + argmax ?row)"
    proof (intro allI impI)
      fix h assume h: "h < argmax ?row"
      then have hk: "h < ?k" using m by simp
      have "?row ! h < ?row ! argmax ?row" using a(3) h by simp
      then show "lv_scores st ! (b * ?k + h) < lv_scores st ! (b * ?k + argmax ?row)"
        by (simp only: nth [OF hk] nth [OF m])
    qed
  qed
qed

lemma run_loop_eq_vars_after:
  assumes "\<not> not_finished cfg (tile_beams (beam_size cfg) eo) (vars_after M cfg uc eo n)"
    "\<forall>m<n. not_finished cfg (tile_beams (beam_size cfg) eo) (vars_after M cfg uc eo m)"
  shows "run_loop M cfg uc eo = vars_after M cfg uc eo n"
proof -
  obtain n' where n': "run_loop M cfg uc eo = vars_after M cfg uc eo n'"
    "\<not> not_finished cfg (tile_beams (beam_size cfg) eo) (vars_after M cfg uc eo n')"
    "\<forall>m<n'. not_finished cfg (tile_beams (beam_size cfg) eo) (vars_after M cfg uc eo m)"
    using run_loop_vars_after [of M cfg uc eo] by blast
  have "\<not> n' < n" using assms(2) n'(2) by blast
  moreover have "\<not> n < n'" using assms(1) n'(3) by blast
  ultimately have "n' = n" by simp
  then show ?thesis using n'(1) by simp
qed

lemma run_loop_steps:
  obtains n where "run_loop M cfg uc eo = vars_after M cfg uc eo n"
    "nat (lv_i (run_loop M cfg uc eo)) = n"
proof -
  obtain n where n: "run_loop M cfg uc eo = vars_after M cfg uc eo n"
    using run_loop_vars_after [of M cfg uc eo] by blast
  then have "nat (lv_i (run_loop M cfg uc eo)) = n" by (simp add: vars_after_i)
  then show thesis using that n by blast
qed

text \<open>
  Claim C6. After the loop, the prediction returned for batch item \<open>b\<close> is the row of a
  hypothesis \<open>m\<close> of that item without its leading token \<open>2\<close>, where \<open>m\<close> has the highest
  cumulative score among the item's \<open>beam_size\<close> hypotheses and is the first one with that
  score. The scores compared are the cumulative scores \<open>lv_scores\<close>, not the ranking
  scores of the pruning.
\<close>

theorem prediction_is_first_best_hypothesis:
  assumes "1 \<le> beam_size cfg" "b < length eo"
  shows "length (beam_search M cfg uc eo) = length eo
    \<and> (\<exists>m<beam_size cfg.
          lv_preds (run_loop M cfg uc eo) ! (b * beam_size cfg + m)
            = 2 # beam_search M cfg uc eo ! b
          \<and> (\<forall>h<beam_size cfg.
                lv_scores (run_loop M cfg uc eo) ! (b * beam_size cfg + h)
                  \<le> lv_scores (run_loop M cfg uc eo) ! (b * beam_size cfg + m))
          \<and> (\<forall>h<m.
                lv_scores (run_loop M cfg uc eo) ! (b * beam_size cfg + h)
                  < lv_scores (run_loop M cfg uc eo) ! (b * beam_size cfg + m)))"
proof -
  let ?k = "beam_size cfg"
  obtain n where n: "run_loop M cfg uc eo = vars_after M cfg uc eo n"
    by (rule run_loop_steps)
  let ?st = "vars_after M cfg uc eo n"
  have sh: "shaped (length eo * ?k) ?st" using vars_after_shaped [OF assms(1)] .
  obtain m where m: "m < ?k"
    "final_preds cfg (length eo) ?st ! b = drop 1 (lv_preds ?st ! (b * ?k + m))"
    "\<forall>h<?k. lv_scores ?st ! (b * ?k + h) \<le> lv_scores ?st ! (b * ?k + m)"
    "\<forall>h<m. lv_scores ?st ! (b * ?k + h) < lv_scores ?st ! (b * ?k + m)"
    by (rule final_preds_winner [OF assms(1) sh assms(2)])
  have "b * ?k + m < length eo * ?k" using item_index(1) [OF assms(2) m(1)] m(1) by simp
  moreover have "length (lv_preds ?st) = length eo * ?k" using sh by (simp add: shaped_def)
  ultimately have "lv_preds ?st ! (b * ?k + m) \<in> set (lv_preds ?st)" by simp
  then have "length (lv_preds ?st ! (b * ?k + m)) = Suc n \<and> hd (lv_preds ?st ! (b * ?k + m)) = 2"
    by (rule vars_after_rows [OF assms(1)])
  then have "lv_preds ?st ! (b * ?k + m) = 2 # drop 1 (lv_preds ?st ! (b * ?k + m))"
    by (cases "lv_preds ?st ! (b * ?k + m)") simp_all
  then have row: "lv_preds (run_loop M cfg uc eo) ! (b * ?k + m) = 2 # beam_search M cfg uc eo ! b"
    using m(2) by (simp add: beam_search_def n)
  have len: "length (beam_search M cfg uc eo) = length eo"
    by (simp add: beam_search_def length_final_preds)
  show ?thesis using len m(1) row m(3,4) unfolding n by blast
qed

text \<open>
  Claim C10. The decoder's output is rectangular. After \<open>n\<close> steps every hypothesis has
  \<open>n + 1\<close> tokens, the first being \<open>2\<close>; the loop returns after
  \<open>nat (lv_i (run_loop \<dots>))\<close> steps, so every returned prediction has exactly that many
  tokens; and in a hypothesis, hence in a prediction, every token after a token \<open>3\<close> is
  \<open>3\<close>: predictions are not cut at their first \<open>3\<close>.
\<close>

theorem predictions_are_rectangular:
  assumes "1 \<le> beam_size cfg"
  shows "(\<forall>n. \<forall>p\<in>set (lv_preds (vars_after M cfg uc eo n)). length p = n + 1)
    \<and> (\<forall>p\<in>set (lv_preds (run_loop M cfg uc eo)).
          length p = nat (lv_i (run_loop M cfg uc eo)) + 1
          \<and> (\<forall>i j. i < j \<and> j < length p \<and> p ! i = 3 \<longrightarrow> p ! j = 3))
    \<and> length (beam_search M cfg uc eo) = length eo
    \<and> (\<forall>row\<in>set (beam_search M cfg uc eo).
          length row = nat (lv_i (run_loop M cfg uc eo))
          \<and> (\<forall>i j. i < j \<and> j < length row \<and> row ! i = 3 \<longrightarrow> row ! j = 3))"
proof (intro conjI ballI allI impI)
  let ?k = "beam_size cfg"
  obtain n where n: "run_loop M cfg uc eo = vars_after M cfg uc eo n"
    "nat (lv_i (run_loop M cfg uc eo)) = n"
    by (rule run_loop_steps)
  let ?st = "vars_after M cfg uc eo n"
  have sh: "shaped (length eo * ?k) ?st" using vars_after_shaped [OF assms(1)] .
  have pl: "length (lv_preds ?st) = length eo * ?k" using sh by (simp add: shaped_def)
  show "\<And>n p. p \<in> set (lv_preds (vars_after M cfg uc eo n)) \<Longrightarrow> length p = n + 1"
    using vars_after_rows [OF assms, where M = M and uc = uc and eo = eo] by simp
  show "\<And>p. p \<in> set (lv_preds (run_loop M cfg uc eo))
      \<Longrightarrow> length p = nat (lv_i (run_loop M cfg uc eo)) + 1"
    unfolding n(2) unfolding n(1)
    using vars_after_rows [OF assms, where M = M and uc = uc and eo = eo] by simp
  show "\<And>p i j. p \<in> set (lv_preds (run_loop M cfg uc eo))
      \<Longrightarrow> i < j \<and> j < length p \<and> p ! i = 3 \<Longrightarrow> p ! j = 3"
    unfolding n(1)
    using vars_after_eos_closed [OF assms, where M = M and uc = uc and eo = eo] by blast
  show "length (beam_search M cfg uc eo) = length eo"
    by (simp add: beam_search_def length_final_preds)
  {
    fix row assume "row \<in> set (beam_search M cfg uc eo)"
    then obtain b where b: "b < length eo" "row = final_preds cfg (length eo) ?st ! b"
      by (auto simp: beam_search_def n(1) in_set_conv_nth length_final_preds)
    obtain m where m: "m < ?k"
      "final_preds cfg (length eo) ?st ! b = drop 1 (lv_preds ?st ! (b * ?k + m))"
      by (rule final_preds_winner [OF assms(1) sh b(1)])
    let ?p = "lv_preds ?st ! (b * ?k + m)"
    have "b * ?k + m < length eo * ?k" using item_index(1) [OF b(1) m(1)] m(1) by simp
    then have mem: "?p \<in> set (lv_preds ?st)" using pl by simp
    have lp: "length ?p = Suc n" using vars_after_rows [OF assms mem] by simp
    show "length row = nat (lv_i (run_loop M cfg uc eo))"
      unfolding n(2) b(2) m(2) using lp by simp
    fix i j assume ij: "i < j \<and> j < length row \<and> row ! i = 3"
    have lrow: "length row = n" unfolding b(2) m(2) using lp by simp
    have "?p ! Suc i = 3" using ij lrow lp unfolding b(2) m(2) by simp
    moreover have "Suc i < Suc j" "Suc j < length ?p" using ij lrow lp by simp_all
    ultimately have "?p ! Suc j = 3" using vars_after_eos_closed [OF assms mem] by blast
    then show "row ! j = 3" using ij lrow lp unfolding b(2) m(2) by simp
  }
qed

lemma ex_run_loop:
  "run_loop ex_net ex_cfg True [[7, 8]] = vars_after ex_net ex_cfg True [[7, 8]] 4"
proof (rule run_loop_eq_vars_after)
  show "\<not> not_finished ex_cfg (tile_beams (beam_size ex_cfg) [[7, 8]])
      (vars_after ex_net ex_cfg True [[7, 8]] 4)"
    unfolding ex_vars_4 by code_simp
  have p0: "not_finished ex_cfg (tile_beams (beam_size ex_cfg) [[7, 8]])
      (vars_after ex_net ex_cfg True [[7, 8]] 0)"
    by code_simp
  have p1: "not_finished ex_cfg (tile_beams (beam_size ex_cfg) [[7, 8]])
      (vars_after ex_net ex_cfg True [[7, 8]] 1)"
    unfolding ex_vars_1 by code_simp
  have p2: "not_finished ex_cfg (tile_beams (beam_size ex_cfg) [[7, 8]])
      (vars_after ex_net ex_cfg True [[7, 8]] 2)"
    unfolding ex_vars_2 by code_simp
  have p3: "not_finished ex_cfg (tile_beams (beam_size ex_cfg) [[7, 8]])
      (vars_after ex_net ex_cfg True [[7, 8]] 3)"
    unfolding ex_vars_3 by code_simp
  show "\<forall>m<4. not_finished ex_cfg (tile_beams (beam_size ex_cfg) [[7, 8]])
      (vars_after ex_net ex_cfg True [[7, 8]] m)"
  proof (intro allI impI)
    fix m :: nat assume "m < 4"
    then consider "m = 0" | "m = 1" | "m = 2" | "m = 3" by linarith
    then show "not_finished ex_cfg (tile_beams (beam_size ex_cfg) [[7, 8]])
      (vars_after ex_net ex_cfg True [[7, 8]] m)"
      using p0 p1 p2 p3 by cases simp_all
  qed
qed

lemma ex_beam_search: "beam_search ex_net ex_cfg True [[7, 8]] = [[4, 4, 3, 3]]"
  unfolding beam_search_def ex_run_loop ex_vars_4 by code_simp

theorem prediction_is_first_best_hypothesis_witness:
  "1 \<le> beam_size ex_cfg \<and> (0::nat) < length [[7, 8 :: int]]
   \<and> lv_scores (run_loop ex_net ex_cfg True [[7, 8]]) = [- 3, - 5]
   \<and> lv_preds (run_loop ex_net ex_cfg True [[7, 8]]) ! 0 = [2, 4, 4, 3, 3]
   \<and> beam_search ex_net ex_cfg True [[7, 8]] ! 0 = [4, 4, 3, 3]"
proof -
  have h1: "1 \<le> beam_size ex_cfg" and h2: "(0::nat) < length [[7, 8 :: int]]"
    by (simp_all add: ex_cfg_fields)
  have sc: "lv_scores (run_loop ex_net ex_cfg True [[7, 8]]) = [- 3, - 5]"
    and pr: "lv_preds (run_loop ex_net ex_cfg True [[7, 8]]) ! 0 = [2, 4, 4, 3, 3]"
    unfolding ex_run_loop ex_vars_4 by simp_all
  from prediction_is_first_best_hypothesis [OF h1 h2, of ex_net True]
  obtain m where m: "m < beam_size ex_cfg"
    "lv_preds (run_loop ex_net ex_cfg True [[7, 8]]) ! (0 * beam_size ex_cfg + m)
       = 2 # beam_search ex_net ex_cfg True [[7, 8]] ! 0"
    "\<forall>h<beam_size ex_cfg.
        lv_scores (run_loop ex_net ex_cfg True [[7, 8]]) ! (0 * beam_size ex_cfg + h)
          \<le> lv_scores (run_loop ex_net ex_cfg True [[7, 8]]) ! (0 * beam_size ex_cfg + m)"
    by blast
  have "m = 0"
  proof (rule ccontr)
    assume "m \<noteq> 0"
    then have "m = 1" using m(1) by (simp add: ex_cfg_fields)
    moreover have "lv_scores (run_loop ex_net ex_cfg True [[7, 8]]) ! (0 * beam_size ex_cfg + 0)
          \<le> lv_scores (run_loop ex_net ex_cfg True [[7, 8]]) ! (0 * beam_size ex_cfg + m)"
      using m(3) by (simp add: ex_cfg_fields)
    ultimately show False by (simp add: sc)
  qed
  then have "beam_search ex_net ex_cfg True [[7, 8]] ! 0 = [4, 4, 3, 3]"
    using m(2) pr by simp
  then show ?thesis using h1 h2 sc pr by blast
qed

theorem predictions_are_rectangular_witness:
  "1 \<le> beam_size ex_cfg
   \<and> nat (lv_i (run_loop ex_net ex_cfg True [[7, 8]])) = 4
   \<and> beam_search ex_net ex_cfg True [[7, 8]] = [[4, 4, 3, 3]]
   \<and> length (beam_search ex_net ex_cfg True [[7, 8]]) = 1
   \<and> length (hd (beam_search ex_net ex_cfg True [[7, 8]])) = 4"
proof -
  have h1: "1 \<le> beam_size ex_cfg" by (simp add: ex_cfg_fields)
  note t = predictions_are_rectangular [OF h1, of ex_net True "[[7, 8]]"]
  have i: "nat (lv_i (run_loop ex_net ex_cfg True [[7, 8]])) = 4"
    unfolding ex_run_loop ex_vars_4 by simp
  from t have l: "length (beam_search ex_net ex_cfg True [[7, 8]]) = length [[7, 8 :: int]]"
    by blast
  then have ne: "hd (beam_search ex_net ex_cfg True [[7, 8]])
      \<in> set (beam_search ex_net ex_cfg True [[7, 8]])"
    by (cases "beam_search ex_net ex_cfg True [[7, 8]]") simp_all
  from t have "\<forall>row\<in>set (beam_search ex_net ex_cfg True [[7, 8]]).
      length row = nat (lv_i (run_loop ex_net ex_cfg True [[7, 8]]))"
    by blast
  then have "length (hd (beam_search ex_net ex_cfg True [[7, 8]])) = 4"
    using ne i by simp
  then show ?thesis using h1 i l ex_beam_search by simp
qed

section \<open>The number of steps\<close>


















section \<open>Configurations with a small \<open>max_target_length\<close>\<close>












section \<open>The bypass of \<open>build_test_model\<close>\<close>













section \<open>NaN log-probabilities\<close>

lemma f32_add_NaN [simp]: "f32_add x NaN = NaN" "f32_add NaN x = NaN"
  by (cases x; simp)+

lemma f32_mul_NaN [simp]: "f32_mul NaN x = NaN" "f32_mul x NaN = NaN"
  by (cases x; simp)+






section \<open>Finished hypotheses\<close>










section \<open>Decoding with and without the cache\<close>

lemma next_preds_of_cong:
  assumes "test_output M d = test_output M d'" "lv_preds st = lv_preds st'"
    "lv_bias st = lv_bias st'"
  shows "next_preds_of M cfg d st = next_preds_of M cfg d' st'"
  using assms by (simp add: next_preds_of_def)

lemma next_scores_of_cong:
  assumes "test_output M d = test_output M d'" "lv_preds st = lv_preds st'"
    "lv_bias st = lv_bias st'"
  shows "next_scores_of M cfg d st = next_scores_of M cfg d' st'"
  using assms by (simp add: next_scores_of_def)

lemma cache_consistent_init:
  "cache_consistent M eo valid \<Longrightarrow> valid (replicate n [2]) (replicate n [])"
  by (simp add: cache_consistent_def)

lemma cache_consistent_output:
  assumes "cache_consistent M eo valid" "valid preds cache" "[] \<notin> set preds"
  shows "test_output M (fst (decoder_with_caching M preds cache eo))
           = test_output M (decoder M preds eo)"
  using assms unfolding cache_consistent_def by blast

lemma cache_consistent_gather:
  assumes "cache_consistent M eo valid" "valid preds cache" "[] \<notin> set preds"
    "length tokens = length parents" "\<forall>j\<in>set parents. j < length preds"
  shows "valid (map2 (\<lambda>p t. p @ [t]) (gather preds parents) tokens)
           (gather (snd (decoder_with_caching M preds cache eo)) parents)"
  using assms unfolding cache_consistent_def by blast

text \<open>
  The simulation: after the same number of steps the two runs agree on everything but
  the cache, and the cache of the caching run is valid for its prefixes.
\<close>

lemma cache_simulation:
  assumes "1 \<le> beam_size cfg" "cache_consistent M (tile_beams (beam_size cfg) eo) valid"
  shows "lv_i (vars_after M cfg True eo n) = lv_i (vars_after M cfg False eo n)
    \<and> lv_bias (vars_after M cfg True eo n) = lv_bias (vars_after M cfg False eo n)
    \<and> lv_preds (vars_after M cfg True eo n) = lv_preds (vars_after M cfg False eo n)
    \<and> lv_scores (vars_after M cfg True eo n) = lv_scores (vars_after M cfg False eo n)
    \<and> lv_lengths (vars_after M cfg True eo n) = lv_lengths (vars_after M cfg False eo n)
    \<and> valid (lv_preds (vars_after M cfg True eo n)) (lv_cache (vars_after M cfg True eo n))"
proof (induction n)
  case 0
  show ?case
    by (simp add: vars_after_0 init_vars_fields cache_consistent_init [OF assms(2)])
next
  case (Suc n)
  let ?k = "beam_size cfg"
  let ?eo = "tile_beams ?k eo"
  let ?bs = "length eo"
  let ?a = "vars_after M cfg True eo n"
  let ?b = "vars_after M cfg False eo n"
  let ?ea = "expand M cfg True ?eo ?bs ?a"
  let ?eb = "expand M cfg False ?eo ?bs ?b"
  have sh: "shaped (?bs * ?k) ?a" using vars_after_shaped [OF assms(1)] .
  have pl: "length (lv_preds ?a) = ?bs * ?k" using sh by (simp add: shaped_def)
  have va: "valid (lv_preds ?a) (lv_cache ?a)" using Suc.IH by blast
  have ne: "[] \<notin> set (lv_preds ?a)"
    using vars_after_rows [OF assms(1), where M = M and uc = True and eo = eo and n = n]
    by fastforce
  have ca: "call_decoder M True ?eo ?a
      = decoder_with_caching M (lv_preds ?a) (lv_cache ?a) ?eo"
    by (simp add: call_decoder_def)
  have cb: "fst (call_decoder M False ?eo ?b) = decoder M (lv_preds ?a) ?eo"
    using Suc.IH by (simp add: call_decoder_def)
  have t: "test_output M (fst (call_decoder M True ?eo ?a))
      = test_output M (fst (call_decoder M False ?eo ?b))"
    unfolding ca cb by (rule cache_consistent_output [OF assms(2) va ne])
  have np: "ex_next_preds ?ea = ex_next_preds ?eb"
    unfolding expand_fields using Suc.IH by (intro next_preds_of_cong t) simp_all
  have ns: "next_scores_of M cfg (fst (call_decoder M True ?eo ?a)) ?a
      = next_scores_of M cfg (fst (call_decoder M False ?eo ?b)) ?b"
    using Suc.IH by (intro next_scores_of_cong t) simp_all
  have es: "ex_scores ?ea = ex_scores ?eb"
    unfolding expand_fields ns using Suc.IH by simp
  have el: "ex_lengths ?ea = ex_lengths ?eb"
    using np Suc.IH by (simp add: expand_fields)
  have pr: "prune cfg ?bs ?ea = prune cfg ?bs ?eb"
    by (simp add: prune_def es el)
  have preds: "lv_preds (vars_after M cfg True eo (Suc n))
      = lv_preds (vars_after M cfg False eo (Suc n))"
    unfolding vars_after_Suc step_fields pr np using Suc.IH by simp
  have others: "lv_i (vars_after M cfg True eo (Suc n)) = lv_i (vars_after M cfg False eo (Suc n))"
    "lv_scores (vars_after M cfg True eo (Suc n)) = lv_scores (vars_after M cfg False eo (Suc n))"
    "lv_lengths (vars_after M cfg True eo (Suc n)) = lv_lengths (vars_after M cfg False eo (Suc n))"
    unfolding vars_after_Suc step_fields pr es el using Suc.IH by simp_all
  have bias: "lv_bias (vars_after M cfg True eo (Suc n))
      = lv_bias (vars_after M cfg False eo (Suc n))"
    unfolding vars_after_bias [OF assms(1)] preds ..
  have cache: "valid (lv_preds (vars_after M cfg True eo (Suc n)))
      (lv_cache (vars_after M cfg True eo (Suc n)))"
  proof -
    let ?ks = "prune cfg ?bs ?ea"
    have lk: "length ?ks = ?bs * ?k"
      using prune_shape [OF sh, where M = M and uc = True and eo = ?eo] .
    have rng: "\<forall>j\<in>set (map (\<lambda>j. j div ?k) ?ks). j < length (lv_preds ?a)"
    proof
      fix p assume "p \<in> set (map (\<lambda>j. j div ?k) ?ks)"
      then obtain j where j: "j < ?bs * ?k" "p = ?ks ! j div ?k"
        using lk by (auto simp: in_set_conv_nth)
      show "p < length (lv_preds ?a)"
        unfolding j(2) pl
        using prune_bounds(4) [OF sh j(1), where M = M and uc = True and eo = ?eo] .
    qed
    have len: "length (gather (flatten (ex_next_preds ?ea)) ?ks) = length (map (\<lambda>j. j div ?k) ?ks)"
      by (simp add: gather_def)
    show ?thesis
      unfolding vars_after_Suc step_fields if_True expand_fields(4) ca
      by (rule cache_consistent_gather [OF assms(2) va ne len rng])
  qed
  show ?case using others(1) bias preds others(2,3) cache by blast
qed

lemma not_finished_cong:
  assumes "lv_i a = lv_i b" "lv_bias a = lv_bias b"
  shows "not_finished cfg eo a = not_finished cfg eo b"
  using assms by (simp add: not_finished_def)

lemma final_preds_cong:
  assumes "lv_preds a = lv_preds b" "lv_scores a = lv_scores b"
  shows "final_preds cfg bs a = final_preds cfg bs b"
  using assms by (simp add: final_preds_def)

lemma cache_run_loop:
  assumes "1 \<le> beam_size cfg" "cache_consistent M (tile_beams (beam_size cfg) eo) valid"
  obtains n where "run_loop M cfg True eo = vars_after M cfg True eo n"
    "run_loop M cfg False eo = vars_after M cfg False eo n"
proof -
  note sim = cache_simulation [OF assms]
  have nf: "\<And>m. not_finished cfg (tile_beams (beam_size cfg) eo) (vars_after M cfg True eo m)
      = not_finished cfg (tile_beams (beam_size cfg) eo) (vars_after M cfg False eo m)"
    using sim by (intro not_finished_cong) blast+
  obtain n where n: "run_loop M cfg True eo = vars_after M cfg True eo n"
    "\<not> not_finished cfg (tile_beams (beam_size cfg) eo) (vars_after M cfg True eo n)"
    "\<forall>m<n. not_finished cfg (tile_beams (beam_size cfg) eo) (vars_after M cfg True eo m)"
    using run_loop_vars_after [of M cfg True eo] by blast
  have "run_loop M cfg False eo = vars_after M cfg False eo n"
    using n(2,3) unfolding nf by (rule run_loop_eq_vars_after)
  then show thesis using that n(1) by blast
qed

text \<open>
  Claim C1. For networks whose incremental decoder meets the contract \<open>cache_consistent\<close>
  (its candidates are those of the full decoder on the same prefixes), for every batch,
  configuration and length-penalty exponent, \<open>beam_search\<close> with the cache and without it
  return the same predictions, and the two loops end after the same number of steps with
  the same token sequences, cumulative scores, lengths and finished flags.
\<close>

theorem cache_changes_no_output:
  assumes "1 \<le> beam_size cfg" "cache_consistent M (tile_beams (beam_size cfg) eo) valid"
  shows "beam_search M cfg True eo = beam_search M cfg False eo
    \<and> lv_preds (run_loop M cfg True eo) = lv_preds (run_loop M cfg False eo)
    \<and> lv_scores (run_loop M cfg True eo) = lv_scores (run_loop M cfg False eo)
    \<and> lv_lengths (run_loop M cfg True eo) = lv_lengths (run_loop M cfg False eo)
    \<and> lv_bias (run_loop M cfg True eo) = lv_bias (run_loop M cfg False eo)
    \<and> lv_i (run_loop M cfg True eo) = lv_i (run_loop M cfg False eo)"
proof -
  obtain n where n: "run_loop M cfg True eo = vars_after M cfg True eo n"
    "run_loop M cfg False eo = vars_after M cfg False eo n"
    by (rule cache_run_loop [OF assms])
  note sim = cache_simulation [OF assms, of n]
  have "beam_search M cfg True eo = beam_search M cfg False eo"
    unfolding beam_search_def n using sim by (intro final_preds_cong) blast+
  then show ?thesis unfolding n using sim by blast
qed

lemma rebuild_prefixes:
  "[] \<notin> set preds \<Longrightarrow> map2 (\<lambda>c p. c @ [last p]) (map butlast preds) preds = preds"
  by (induction preds) auto

lemma map_butlast_snoc:
  "length ts = length ps \<Longrightarrow> map butlast (map2 (\<lambda>p t. p @ [t]) ps ts) = ps"
proof (induction ps arbitrary: ts)
  case Nil
  then show ?case by simp
next
  case (Cons p ps)
  then show ?case by (cases ts) simp_all
qed

lemma ex_net_cache_consistent:
  fixes eo :: "int list list"
  shows "cache_consistent ex_net eo (\<lambda>preds cache. cache = map butlast preds)"
  unfolding cache_consistent_def
proof (intro conjI allI impI)
  fix n :: nat
  show "replicate n [] = map butlast (replicate n [2 :: int])" by simp
next
  fix preds cache :: "int list list"
  assume a: "cache = map butlast preds \<and> [] \<notin> set preds"
  have c: "ex_decoder_with_caching preds cache eo = (preds, preds)"
    using a by (simp add: ex_decoder_with_caching_def rebuild_prefixes)
  show "test_output ex_net (fst (decoder_with_caching ex_net preds cache eo))
      = test_output ex_net (decoder ex_net preds eo)"
    using c by (simp add: ex_net_def)
  fix parents :: "nat list" and tokens :: "int list"
  assume b: "length tokens = length parents \<and> (\<forall>j\<in>set parents. j < length preds)"
  have "length tokens = length (gather preds parents)" using b by (simp add: gather_def)
  then have "map butlast (map2 (\<lambda>p t. p @ [t]) (gather preds parents) tokens)
      = gather preds parents"
    by (rule map_butlast_snoc)
  then show "gather (snd (decoder_with_caching ex_net preds cache eo)) parents
      = map butlast (map2 (\<lambda>p t. p @ [t]) (gather preds parents) tokens)"
    using c by (simp add: ex_net_def)
qed

theorem cache_changes_no_output_witness:
  "1 \<le> beam_size ex_cfg
   \<and> cache_consistent ex_net (tile_beams (beam_size ex_cfg) [[7, 8]])
        (\<lambda>preds cache. cache = map butlast preds)
   \<and> beam_search ex_net ex_cfg True [[7, 8]] = beam_search ex_net ex_cfg False [[7, 8]]
   \<and> beam_search ex_net ex_cfg False [[7, 8]] = [[4, 4, 3, 3]]
   \<and> lv_scores (run_loop ex_net ex_cfg False [[7, 8]]) = [- 3, - 5]"
proof -
  have h: "1 \<le> beam_size ex_cfg" by (simp add: ex_cfg_fields)
  note c = ex_net_cache_consistent [of "tile_beams (beam_size ex_cfg) [[7, 8]]"]
  note t = cache_changes_no_output [OF h c]
  from t have a: "beam_search ex_net ex_cfg True [[7, 8]] = beam_search ex_net ex_cfg False [[7, 8]]"
    by blast
  then have b: "beam_search ex_net ex_cfg False [[7, 8]] = [[4, 4, 3, 3]]"
    using ex_beam_search by simp
  from t have "lv_scores (run_loop ex_net ex_cfg True [[7, 8]])
      = lv_scores (run_loop ex_net ex_cfg False [[7, 8]])"
    by blast
  then have s: "lv_scores (run_loop ex_net ex_cfg False [[7, 8]]) = [- 3, - 5]"
    unfolding ex_run_loop ex_vars_4 by simp
  show ?thesis using h c a b s by blast
qed

end
